theory Spec2Isabelle
  imports Complex_Main "HOL-Library.Multiset" "HOL-Library.AList" "HOL-Library.List_Lexorder"
    "HOL-Library.Char_ord"
begin

section \<open>The clinic queue-management engine of skeletonCodeAssessment2.py\<close>

text \<open>
  The development embeds the classes \<open>CommunicationManager\<close>, \<open>Patient\<close>, \<open>Doctor\<close> and
  \<open>QueueManagementSystem\<close> of \<^verbatim>\<open>skeletonCodeAssessment2.py\<close>.

  Conventions of the embedding:
  \<^item> A \<open>datetime\<close> is an \<open>int\<close>, the number of microseconds since a fixed midnight; a
    \<open>timedelta\<close> is the difference of two of them.
  \<^item> A finite \<open>float\<close> is a pair \<open>(m, e)\<close> of integers that stands for \<open>m * 2 ^ e\<close>.
    \<open>timedelta.total_seconds()\<close> is the quotient of the microsecond count by \<open>10 ** 6\<close>,
    rounded to the nearest double (53 bits, ties to even), and \<open>// 60\<close> floors that
    double, not the exact quotient. The quotient of a timedelta lies between \<open>10 ** -6\<close>
    and \<open>2 ** 47\<close>, far inside the exponent range of a double and where the float
    floor division is exact, so neither overflow nor subnormal numbers are modelled.
  \<^item> A priority is the number the Python value denotes (\<open>31\<close> for both \<open>31\<close> and
    \<open>31.0\<close>); the program only compares priorities. The severities of the program are
    1 to 5, so \<open>urgency * 10 - delay + adjustment\<close> involves no further rounding.
  \<^item> The ambient effects of the program are fields of the record \<open>world\<close>: the stream
    of raw draws behind the module \<open>random\<close>, the successive readings of
    \<open>datetime.now()\<close>, the stream of \<open>uuid.uuid4()\<close> values, the lines printed on
    standard output and the messages handed to \<open>logging.info\<close>. Every function that
    touches one of them takes the world and returns the new one.
  \<^item> A raised exception is the \<open>Inl\<close> branch of a result of type \<open>py_error + 'a\<close>.
  \<^item> Python forbids no leading underscore; Isabelle does, so \<open>_calculate_urgency\<close> is
    \<open>calculate_urgency\<close> here, and likewise for the other private methods.
\<close>

subsection \<open>The world: randomness, clock, identifiers, output\<close>

datatype py_error = IndexError | ValueError | TypeError

record world =
  rand_src :: "nat \<Rightarrow> nat"
  clock_src :: "nat \<Rightarrow> int"
  uuid_src :: "nat \<Rightarrow> string"
  stdout :: "string list"
  log_info :: "string list"

text \<open>\<open>random.randint(a, b)\<close>: a draw in the closed range from \<open>a\<close> to \<open>b\<close>.\<close>

definition random_randint :: "int \<Rightarrow> int \<Rightarrow> world \<Rightarrow> int \<times> world" where
  "random_randint a b w =
     (a + int (rand_src w 0 mod nat (b - a + 1)),
      w\<lparr>rand_src := \<lambda>n. rand_src w (Suc n)\<rparr>)"

text \<open>
  \<open>random.choice(seq)\<close>: an element of a non-empty sequence (every call of the program
  passes a non-empty literal list).
\<close>

definition random_choice :: "'a list \<Rightarrow> world \<Rightarrow> 'a \<times> world" where
  "random_choice xs w =
     (xs ! (rand_src w 0 mod length xs),
      w\<lparr>rand_src := \<lambda>n. rand_src w (Suc n)\<rparr>)"

definition datetime_now :: "world \<Rightarrow> int \<times> world" where
  "datetime_now w = (clock_src w 0, w\<lparr>clock_src := \<lambda>n. clock_src w (Suc n)\<rparr>)"

definition uuid4_str :: "world \<Rightarrow> string \<times> world" where
  "uuid4_str w = (uuid_src w 0, w\<lparr>uuid_src := \<lambda>n. uuid_src w (Suc n)\<rparr>)"

text \<open>\<open>dt.replace(hour=h, minute=m)\<close> keeps the date, the seconds and the microseconds.\<close>

definition datetime_replace :: "int \<Rightarrow> int \<Rightarrow> int \<Rightarrow> int" where
  "datetime_replace t h m =
     t - t mod 86400000000 + h * 3600000000 + m * 60000000 + t mod 60000000"

subsection \<open>Floats: true division and floor division\<close>

text \<open>\<open>int.bit_length()\<close> of a positive integer.\<close>

function bit_length :: "int \<Rightarrow> int" where
  "bit_length n = (if n \<le> 0 then 0 else 1 + bit_length (n div 2))"
  by pat_completeness auto
termination
  by (relation "measure nat") auto

declare bit_length.simps [simp del]

text \<open>The integer nearest to \<open>n / d\<close> for \<open>d > 0\<close>, ties to the even one.\<close>

definition round_half_even :: "int \<Rightarrow> int \<Rightarrow> int" where
  "round_half_even n d =
     (let q = n div d; r = n mod d
      in if 2 * r < d then q
         else if d < 2 * r then q + 1
         else if even q then q else q + 1)"

text \<open>\<open>x * 2 ^ e\<close> for \<open>e \<ge> 0\<close>, and \<open>x\<close> for \<open>e < 0\<close>.\<close>

definition scale_up :: "int \<Rightarrow> int \<Rightarrow> int" where
  "scale_up x e = x * 2 ^ nat e"

text \<open>
  The exponent \<open>e\<close> of the double nearest to \<open>a / b\<close>, for positive \<open>a\<close> and \<open>b\<close>: the
  one with \<open>2 ^ 52 \<le> a / (b * 2 ^ e) < 2 ^ 53\<close>. The bit lengths fix it up to one.
\<close>

definition float_exponent :: "int \<Rightarrow> int \<Rightarrow> int" where
  "float_exponent a b =
     (let e1 = bit_length a - bit_length b - 52
      in if 2 ^ 52 * scale_up b e1 \<le> scale_up a (- e1) then e1 else e1 - 1)"

text \<open>
  \<open>a / b\<close> on integers with \<open>b > 0\<close>: Python's true division returns the double nearest
  to the quotient.
\<close>

definition true_divide :: "int \<Rightarrow> int \<Rightarrow> int \<times> int" where
  "true_divide a b =
     (if a = 0 then (0, 0)
      else (let e = float_exponent \<bar>a\<bar> b;
                m = round_half_even (scale_up \<bar>a\<bar> (- e)) (scale_up b e)
            in (sgn a * m, e)))"

text \<open>\<open>x // k\<close> for a float \<open>x\<close> and a positive integer \<open>k\<close>: the floor of \<open>x / k\<close>.\<close>

definition float_floordiv :: "int \<times> int \<Rightarrow> int \<Rightarrow> int" where
  "float_floordiv x k = (case x of (m, e) \<Rightarrow> scale_up m e div scale_up k (- e))"

text \<open>\<open>td.total_seconds()\<close> for a timedelta of \<open>td\<close> microseconds.\<close>

definition total_seconds :: "int \<Rightarrow> int \<times> int" where
  "total_seconds td = true_divide td 1000000"

text \<open>\<open>td.total_seconds() // s\<close>.\<close>

definition total_seconds_floordiv :: "int \<Rightarrow> int \<Rightarrow> int" where
  "total_seconds_floordiv td s = float_floordiv (total_seconds td) s"

subsection \<open>Formatting integers, as an f-string does\<close>

definition digit_char :: "nat \<Rightarrow> char" where
  "digit_char d = ''0123456789'' ! (d mod 10)"

fun str_nat :: "nat \<Rightarrow> string" where
  "str_nat n = (if n < 10 then [digit_char n] else str_nat (n div 10) @ [digit_char (n mod 10)])"

declare str_nat.simps [simp del]

definition str_int :: "int \<Rightarrow> string" where
  "str_int i = (if i < 0 then CHR ''-'' # str_nat (nat (- i)) else str_nat (nat i))"

subsection \<open>CommunicationManager\<close>

record Patient =
  patient_id :: string
  name :: string
  contact_number :: "string option"
  scheduled_time :: int
  arrival_time :: int
  source :: string
  medical_condition :: "string \<times> int"
  urgency :: int
  priority :: int
  status :: string
  wait_time :: "int option"

text \<open>
  \<open>send_notification\<close> prints one line and hands one message to \<open>logging.info\<close>.
\<close>

definition send_notification :: "Patient \<Rightarrow> string \<Rightarrow> world \<Rightarrow> world" where
  "send_notification patient message w =
     w\<lparr>stdout := stdout w @
          [''Notification to '' @ name patient @ '' ('' @ source patient @ ''): '' @ message],
       log_info := log_info w @
          [''Notification sent to '' @ patient_id patient @ '': '' @ message]\<rparr>"

subsection \<open>Patient\<close>

definition conditions :: "(string \<times> int) list" where
  "conditions =
     [(''Minor Checkup'', 1),
      (''Routine Prescription'', 2),
      (''Chronic Disease Follow-up'', 3),
      (''Acute Pain'', 4),
      (''Severe Symptoms'', 5)]"

text \<open>\<open>Patient._generate_medical_condition\<close>: a random element of \<open>conditions\<close>.\<close>

definition generate_medical_condition :: "Patient \<Rightarrow> world \<Rightarrow> (string \<times> int) \<times> world" where
  "generate_medical_condition self w = random_choice conditions w"

text \<open>
  \<open>Patient._calculate_urgency\<close>: the severity of the condition returned by a fresh call
  of \<open>_generate_medical_condition\<close>.
\<close>

definition calculate_urgency :: "Patient \<Rightarrow> world \<Rightarrow> int \<times> world" where
  "calculate_urgency self w =
     (case generate_medical_condition self w of (c, w') \<Rightarrow> (snd c, w'))"

definition source_priority :: "(string \<times> int) list" where
  "source_priority = [(''Walk-in'', - 1), (''App'', 1), (''WhatsApp'', 0)]"

text \<open>\<open>d.get(k, default)\<close> on a dictionary given by its items.\<close>

definition dict_get :: "('k \<times> 'v) list \<Rightarrow> 'k \<Rightarrow> 'v \<Rightarrow> 'v" where
  "dict_get d k dflt = (case map_of d k of None \<Rightarrow> dflt | Some v \<Rightarrow> v)"

definition delay_of :: "Patient \<Rightarrow> int" where
  "delay_of self =
     max 0 (total_seconds_floordiv (arrival_time self - scheduled_time self) 60)"

definition calculate_priority :: "Patient \<Rightarrow> int" where
  "calculate_priority self =
     (urgency self * 10) - delay_of self + dict_get source_priority (source self) 0"

text \<open>
  \<open>x or f()\<close>: \<open>f\<close> runs only when \<open>x\<close> is falsy. An optional string is falsy when it
  is \<open>None\<close> or empty, an optional list likewise; an optional datetime or an optional
  pair only when it is \<open>None\<close>.
\<close>

definition or_else_seq :: "'a list option \<Rightarrow> (world \<Rightarrow> 'a list \<times> world) \<Rightarrow> world \<Rightarrow> 'a list \<times> world" where
  "or_else_seq x f w =
     (case x of None \<Rightarrow> f w | Some s \<Rightarrow> if s = [] then f w else (s, w))"

definition or_else :: "'a option \<Rightarrow> (world \<Rightarrow> 'a \<times> world) \<Rightarrow> world \<Rightarrow> 'a \<times> world" where
  "or_else x f w = (case x of None \<Rightarrow> f w | Some v \<Rightarrow> (v, w))"

definition default_name :: "world \<Rightarrow> string \<times> world" where
  "default_name w = (case random_randint 1000 9999 w of (r, w') \<Rightarrow> (''Patient_'' @ str_int r, w'))"

text \<open>
  \<open>Patient.__init__\<close>. The attributes \<open>medical_condition\<close>, \<open>urgency\<close>, \<open>priority\<close> and
  \<open>status\<close> hold a placeholder until the constructor assigns them; none is read before
  its assignment.
\<close>

definition Patient_init ::
  "string option \<Rightarrow> string option \<Rightarrow> int option \<Rightarrow> string option \<Rightarrow> (string \<times> int) option
     \<Rightarrow> world \<Rightarrow> Patient \<times> world" where
  "Patient_init name_arg contact_arg scheduled_arg source_arg condition_arg w0 =
     (case uuid4_str w0 of (pid, w1) \<Rightarrow>
      case or_else_seq name_arg default_name w1 of (nm, w2) \<Rightarrow>
      case or_else scheduled_arg datetime_now w2 of (sched, w3) \<Rightarrow>
      case datetime_now w3 of (arr, w4) \<Rightarrow>
      case or_else_seq source_arg (random_choice [''App'', ''Walk-in'', ''WhatsApp'']) w4
        of (src, w5) \<Rightarrow>
      let self0 = \<lparr>patient_id = pid, name = nm, contact_number = contact_arg,
                   scheduled_time = sched, arrival_time = arr, source = src,
                   medical_condition = ([], 0), urgency = 0, priority = 0,
                   status = [], wait_time = None\<rparr> in
      case or_else condition_arg (generate_medical_condition self0) w5 of (cond, w6) \<Rightarrow>
      let self1 = self0\<lparr>medical_condition := cond\<rparr> in
      case calculate_urgency self1 w6 of (u, w7) \<Rightarrow>
      let self2 = self1\<lparr>urgency := u\<rparr>;
          self3 = self2\<lparr>priority := calculate_priority self2\<rparr>
      in (self3\<lparr>status := ''Scheduled'', wait_time := None\<rparr>, w7))"

text \<open>\<open>Patient.__lt__\<close>: reversed, so that a min-heap serves the greatest priority first.\<close>

definition Patient_lt :: "Patient \<Rightarrow> Patient \<Rightarrow> bool" where
  "Patient_lt self other = (priority self > priority other)"

subsection \<open>The module heapq\<close>

text \<open>
  \<open>heapq\<close> orders the items of a list with their \<open><\<close>; the comparison is the
  parameter \<open>lt\<close>. The functions follow the library's Python text: \<open>_siftdown\<close> moves
  parents down along the path from \<open>pos\<close> to the root until \<open>newitem\<close> fits, \<open>_siftup\<close>
  moves the smaller child up until a leaf is reached, puts \<open>newitem\<close> there and calls
  \<open>_siftdown\<close>.
\<close>

function siftdown_loop ::
  "('a \<Rightarrow> 'a \<Rightarrow> bool) \<Rightarrow> 'a list \<Rightarrow> 'a \<Rightarrow> nat \<Rightarrow> nat \<Rightarrow> 'a list" where
  "siftdown_loop lt heap newitem startpos pos =
     (if pos > startpos then
        (let parentpos = (pos - 1) div 2;
             parent = heap ! parentpos
         in if lt newitem parent
            then siftdown_loop lt (heap[pos := parent]) newitem startpos parentpos
            else heap[pos := newitem])
      else heap[pos := newitem])"
  by pat_completeness auto
termination
  by (relation "measure (\<lambda>(lt, heap, newitem, startpos, pos). pos)") auto

declare siftdown_loop.simps [simp del]

definition siftdown :: "('a \<Rightarrow> 'a \<Rightarrow> bool) \<Rightarrow> 'a list \<Rightarrow> nat \<Rightarrow> nat \<Rightarrow> 'a list" where
  "siftdown lt heap startpos pos = siftdown_loop lt heap (heap ! pos) startpos pos"

text \<open>The loop of \<open>_siftup\<close>: it returns the list and the position of the leaf reached.\<close>

function siftup_loop :: "('a \<Rightarrow> 'a \<Rightarrow> bool) \<Rightarrow> 'a list \<Rightarrow> nat \<Rightarrow> 'a list \<times> nat" where
  "siftup_loop lt heap pos =
     (let endpos = length heap;
          childpos = 2 * pos + 1
      in if childpos < endpos then
           (let rightpos = childpos + 1;
                childpos' = (if rightpos < endpos \<and> \<not> lt (heap ! childpos) (heap ! rightpos)
                             then rightpos else childpos)
            in siftup_loop lt (heap[pos := heap ! childpos']) childpos')
         else (heap, pos))"
  by pat_completeness auto
termination
  by (relation "measure (\<lambda>(lt, heap, pos). length heap - pos)") (auto simp: Let_def)

declare siftup_loop.simps [simp del]

definition siftup :: "('a \<Rightarrow> 'a \<Rightarrow> bool) \<Rightarrow> 'a list \<Rightarrow> nat \<Rightarrow> 'a list" where
  "siftup lt heap pos =
     (let startpos = pos;
          newitem = heap ! pos
      in case siftup_loop lt heap pos of (heap', pos') \<Rightarrow>
           siftdown lt (heap'[pos' := newitem]) startpos pos')"

definition heappush :: "('a \<Rightarrow> 'a \<Rightarrow> bool) \<Rightarrow> 'a list \<Rightarrow> 'a \<Rightarrow> 'a list" where
  "heappush lt heap item = siftdown lt (heap @ [item]) 0 (length (heap @ [item]) - 1)"

text \<open>\<open>heappop\<close>: \<open>heap.pop()\<close> raises \<open>IndexError\<close> on the empty list.\<close>

definition heappop :: "('a \<Rightarrow> 'a \<Rightarrow> bool) \<Rightarrow> 'a list \<Rightarrow> py_error + ('a \<times> 'a list)" where
  "heappop lt heap =
     (if heap = [] then Inl IndexError
      else (let lastelt = last heap;
                heap1 = butlast heap
            in if heap1 \<noteq> []
               then (let returnitem = heap1 ! 0;
                         heap2 = siftup lt (heap1[0 := lastelt]) 0
                     in Inr (returnitem, heap2))
               else Inr (lastelt, heap1)))"

subsection \<open>Doctor\<close>

record Doctor =
  doctor_id :: string
  specialization :: string
  queue :: "Patient list"
  availability_blocks :: "(int \<times> int) list"
  avg_consultation_time :: int
  daily_capacity :: int

text \<open>\<open>Doctor._generate_availability_blocks\<close>: four readings of the clock.\<close>

definition generate_availability_blocks :: "world \<Rightarrow> (int \<times> int) list \<times> world" where
  "generate_availability_blocks w0 =
     (case datetime_now w0 of (t1, w1) \<Rightarrow>
      case datetime_now w1 of (t2, w2) \<Rightarrow>
      case datetime_now w2 of (t3, w3) \<Rightarrow>
      case datetime_now w3 of (t4, w4) \<Rightarrow>
        ([(datetime_replace t1 9 0, datetime_replace t2 12 0),
          (datetime_replace t3 15 0, datetime_replace t4 18 0)], w4))"

definition Doctor_init ::
  "string \<Rightarrow> string \<Rightarrow> (int \<times> int) list option \<Rightarrow> world \<Rightarrow> Doctor \<times> world" where
  "Doctor_init did spec blocks_arg w0 =
     (case or_else_seq blocks_arg generate_availability_blocks w0 of (blocks, w1) \<Rightarrow>
      case random_randint 10 25 w1 of (avg, w2) \<Rightarrow>
      case random_randint 30 50 w2 of (cap, w3) \<Rightarrow>
        (\<lparr>doctor_id = did, specialization = spec, queue = [],
          availability_blocks = blocks, avg_consultation_time = avg,
          daily_capacity = cap\<rparr>, w3))"

definition add_patient :: "Doctor \<Rightarrow> Patient \<Rightarrow> Doctor" where
  "add_patient self patient = self\<lparr>queue := heappush Patient_lt (queue self) patient\<rparr>"

text \<open>\<open>Doctor.next_patient\<close>: the popped patient, or \<open>None\<close> when the queue is empty.\<close>

definition next_patient :: "Doctor \<Rightarrow> py_error + (Patient option \<times> Doctor)" where
  "next_patient self =
     (if queue self \<noteq> []
      then (case heappop Patient_lt (queue self) of
              Inl e \<Rightarrow> Inl e
            | Inr (p, q) \<Rightarrow> Inr (Some p, self\<lparr>queue := q\<rparr>))
      else Inr (None, self))"

definition estimate_wait_time :: "Doctor \<Rightarrow> int" where
  "estimate_wait_time self = int (length (queue self)) * avg_consultation_time self"

subsection \<open>QueueManagementSystem\<close>

text \<open>
  The dictionary \<open>doctors\<close> is the list of its items in insertion order, which is the
  order \<open>doctors.values()\<close> iterates in. Assigning to a key replaces the value of a
  present key in place and appends an absent one. Each value is an object of its own
  (\<open>add_doctor\<close> creates one per call), so a reference to a doctor of the registry is a
  position of the list.
\<close>

record QueueManagementSystem =
  doctors :: "(string \<times> Doctor) list"

definition add_doctor ::
  "QueueManagementSystem \<Rightarrow> string \<Rightarrow> string \<Rightarrow> (int \<times> int) list option \<Rightarrow> world
     \<Rightarrow> QueueManagementSystem \<times> world" where
  "add_doctor self did spec blocks_arg w =
     (case Doctor_init did spec blocks_arg w of (d, w') \<Rightarrow>
        (self\<lparr>doctors := AList.update did d (doctors self)\<rparr>, w'))"

definition specializations :: "string list" where
  "specializations = [''General'', ''Pediatrics'', ''Cardiology'', ''Neurology'', ''Orthopedics'']"

text \<open>The loop of \<open>QueueManagementSystem.__init__\<close> over \<open>range(num_doctors)\<close>.\<close>

fun init_loop :: "nat list \<Rightarrow> QueueManagementSystem \<Rightarrow> world \<Rightarrow> QueueManagementSystem \<times> world" where
  "init_loop [] self w = (self, w)"
| "init_loop (i # is) self w =
     (case random_choice specializations w of (spec, w1) \<Rightarrow>
      case add_doctor self (''DOC-'' @ str_nat (i + 1)) spec None w1 of (self', w2) \<Rightarrow>
        init_loop is self' w2)"

definition QueueManagementSystem_init :: "nat \<Rightarrow> world \<Rightarrow> QueueManagementSystem \<times> world" where
  "QueueManagementSystem_init num_doctors w = init_loop [0..<num_doctors] \<lparr>doctors = []\<rparr> w"

definition mapping :: "(string \<times> string) list" where
  "mapping =
     [(''Chronic Disease Follow-up'', ''Cardiology''),
      (''Acute Pain'', ''Orthopedics''),
      (''Severe Symptoms'', ''Neurology'')]"

text \<open>
  \<open>_map_condition_to_specialization\<close> takes whatever value the caller passes. The values
  it can tell apart are those of \<open>pyval\<close>: \<open>medical_condition[0]\<close> raises \<open>TypeError\<close>
  on a value that cannot be subscripted and \<open>IndexError\<close> on an empty sequence, and
  gives the first character of a string; \<open>mapping.get\<close> hashes its key, which raises
  \<open>TypeError\<close> on a list or on a tuple that holds one, and finds only a string equal to
  one of its keys.
\<close>

datatype pyval = PyNone | PyInt int | PyStr string | PyTuple "pyval list" | PyList "pyval list"

fun getitem0 :: "pyval \<Rightarrow> py_error + pyval" where
  "getitem0 PyNone = Inl TypeError"
| "getitem0 (PyInt i) = Inl TypeError"
| "getitem0 (PyStr s) = (case s of [] \<Rightarrow> Inl IndexError | c # cs \<Rightarrow> Inr (PyStr [c]))"
| "getitem0 (PyTuple xs) = (case xs of [] \<Rightarrow> Inl IndexError | x # rest \<Rightarrow> Inr x)"
| "getitem0 (PyList xs) = (case xs of [] \<Rightarrow> Inl IndexError | x # rest \<Rightarrow> Inr x)"

fun hashable :: "pyval \<Rightarrow> bool" where
  "hashable PyNone = True"
| "hashable (PyInt i) = True"
| "hashable (PyStr s) = True"
| "hashable (PyTuple xs) = (\<forall>x \<in> set xs. hashable x)"
| "hashable (PyList xs) = False"

definition map_condition_to_specialization :: "pyval \<Rightarrow> py_error + string" where
  "map_condition_to_specialization condition =
     (case getitem0 condition of
        Inl e \<Rightarrow> Inl e
      | Inr key \<Rightarrow>
          if \<not> hashable key then Inl TypeError
          else Inr (case key of PyStr s \<Rightarrow> dict_get mapping s ''General''
                                | _ \<Rightarrow> ''General''))"

text \<open>
  The condition of a patient of the model is a pair of a name and a severity;
  \<open>py_condition\<close> is that tuple as a Python value. On it the method returns normally
  (lemma \<open>map_condition_py_condition\<close>), so in \<open>_is_doctor_suitable\<close> the comparison
  \<open>doctor.specialization == self._map_condition_to_specialization(...)\<close> is the equality
  of the method's result with the normal result \<open>Inr (specialization doctor)\<close>.
\<close>

definition py_condition :: "string \<times> int \<Rightarrow> pyval" where
  "py_condition c = PyTuple [PyStr (fst c), PyInt (snd c)]"

definition is_doctor_suitable :: "Doctor \<Rightarrow> Patient \<Rightarrow> bool" where
  "is_doctor_suitable doctor patient =
     (specialization doctor = ''General'' \<or>
      Inr (specialization doctor)
        = map_condition_to_specialization (py_condition (medical_condition patient)))"

text \<open>
  \<open>min(seq, key=f)\<close>: \<open>ValueError\<close> on an empty sequence; otherwise the first item whose
  key is least (a later item replaces the current one only when its key is smaller).
\<close>

definition min_key :: "('a \<Rightarrow> int) \<Rightarrow> 'a list \<Rightarrow> py_error + 'a" where
  "min_key f xs =
     (case xs of [] \<Rightarrow> Inl ValueError
      | x # rest \<Rightarrow> Inr (foldl (\<lambda>best y. if f y < f best then y else best) x rest))"

text \<open>
  \<open>QueueManagementSystem.assign_patient\<close>. The candidate lists hold positions of the
  registry. \<open>suitable_doctors\<close> is the local variable of that name after the fallback
  to the General doctors, \<open>best_doctor_pos\<close> the position \<open>min\<close> selects;
  \<open>best_doctor.add_patient\<close> mutates the object at that position, and the method
  returns that object.
\<close>

definition suitable_doctors :: "QueueManagementSystem \<Rightarrow> Patient \<Rightarrow> nat list" where
  "suitable_doctors self patient =
     (let ds = doctors self;
          suitable = filter (\<lambda>i. is_doctor_suitable (snd (ds ! i)) patient) [0..<length ds]
      in if suitable = []
         then filter (\<lambda>i. specialization (snd (ds ! i)) = ''General'') [0..<length ds]
         else suitable)"

definition best_doctor_pos :: "QueueManagementSystem \<Rightarrow> Patient \<Rightarrow> py_error + nat" where
  "best_doctor_pos self patient =
     min_key (\<lambda>i. estimate_wait_time (snd (doctors self ! i))) (suitable_doctors self patient)"

definition assign_patient ::
  "QueueManagementSystem \<Rightarrow> Patient \<Rightarrow> world
     \<Rightarrow> py_error + (Doctor \<times> QueueManagementSystem \<times> world)" where
  "assign_patient self patient w =
     (case best_doctor_pos self patient of
        Inl e \<Rightarrow> Inl e
      | Inr best \<Rightarrow>
          (let ds = doctors self;
               best_doctor = add_patient (snd (ds ! best)) patient;
               wait_time = estimate_wait_time best_doctor;
               w' = send_notification patient
                      (''Assigned to Dr. '' @ doctor_id best_doctor @
                       ''. Estimated wait: '' @ str_int wait_time @ '' minutes'') w
           in Inr (best_doctor,
                   self\<lparr>doctors := ds[best := (fst (ds ! best), best_doctor)]\<rparr>,
                   w')))"

text \<open>Calling \<open>next_patient\<close> \<open>k\<close> times in a row: the values returned and the doctor left.\<close>

fun next_patients :: "nat \<Rightarrow> Doctor \<Rightarrow> py_error + (Patient option list \<times> Doctor)" where
  "next_patients 0 d = Inr ([], d)"
| "next_patients (Suc k) d =
     (case next_patient d of
        Inl e \<Rightarrow> Inl e
      | Inr (r, d') \<Rightarrow>
          (case next_patients k d' of
             Inl e \<Rightarrow> Inl e
           | Inr (rs, d'') \<Rightarrow> Inr (r # rs, d'')))"

subsection \<open>Reference formulas of the specification\<close>

text \<open>
  The priority formula in the words of the specification: the delay is the floor of
  the minutes from the scheduled time to the arrival time, never below zero; the
  adjustment is \<open>-1\<close> for Walk-in, \<open>+1\<close> for App, \<open>0\<close> for WhatsApp and for any other
  source. The definitions of the code are compared with these.
\<close>

definition spec_source_adjustment :: "string \<Rightarrow> int" where
  "spec_source_adjustment src =
     (if src = ''Walk-in'' then - 1 else if src = ''App'' then 1
      else if src = ''WhatsApp'' then 0 else 0)"

definition spec_delay_minutes :: "int \<Rightarrow> int \<Rightarrow> int" where
  "spec_delay_minutes sched arr = max 0 ((arr - sched) div 60000000)"

definition spec_priority :: "int \<Rightarrow> int \<Rightarrow> int \<Rightarrow> string \<Rightarrow> int" where
  "spec_priority u sched arr src =
     u * 10 - spec_delay_minutes sched arr + spec_source_adjustment src"

subsection \<open>Concrete inputs\<close>

text \<open>
  A world whose every random draw is \<open>r\<close> and whose clock always reads \<open>t\<close>, and the
  patient constructed in it with an explicit name, scheduled time, source \<open>App\<close> and
  condition \<open>("Acute Pain", 4)\<close>.
\<close>

definition world_const :: "nat \<Rightarrow> int \<Rightarrow> world" where
  "world_const r t =
     \<lparr>rand_src = (\<lambda>n. r), clock_src = (\<lambda>n. t), uuid_src = (\<lambda>n. ''uuid''),
      stdout = [], log_info = []\<rparr>"

definition patient_at :: "int \<Rightarrow> nat \<Rightarrow> int \<Rightarrow> Patient" where
  "patient_at sched r t =
     fst (Patient_init (Some ''Ann'') None (Some sched) (Some ''App'') (Some (''Acute Pain'', 4))
            (world_const r t))"

text \<open>
  A patient with the condition \<open>("Severe Symptoms", 5)\<close>, constructed in a world whose
  random draws are all 0.
\<close>

definition patient_severe :: Patient where
  "patient_severe =
     fst (Patient_init (Some ''Bob'') None (Some 0) (Some ''App'') (Some (''Severe Symptoms'', 5))
            (world_const 0 0))"

text \<open>
  The registry obtained by calling \<open>add_doctor\<close> for each pair of a doctor id and a
  specialization, in the order of the list.
\<close>

definition qms_of :: "(string \<times> string) list \<Rightarrow> QueueManagementSystem" where
  "qms_of pairs =
     foldl (\<lambda>q (did, spec). fst (add_doctor q did spec (Some [(0, 1)]) (world_const 0 0)))
       \<lparr>doctors = []\<rparr> pairs"

text \<open>A doctor with an empty queue, as the constructor returns it.\<close>

definition doctor_general :: Doctor where
  "doctor_general = fst (Doctor_init ''DOC-1'' ''General'' (Some [(0, 1)]) (world_const 0 0))"

subsection \<open>The value of a float\<close>

text \<open>The real number a float stands for; it serves the proofs only.\<close>

definition float_val :: "int \<times> int \<Rightarrow> real" where
  "float_val x = (case x of (m, e) \<Rightarrow> of_int m * 2 powi e)"

subsection \<open>The heap invariant\<close>

text \<open>
  The invariant of \<open>heapq\<close> for the order of \<open>Patient.__lt__\<close>: no item is less than
  its parent, that is, no patient has a greater priority than the patient at the parent
  position. \<open>sd_inv\<close> is the invariant of the loop of \<open>_siftdown\<close> (the heap order may
  fail only between \<open>pos\<close> and its parent), \<open>su_inv\<close> that of the loop of \<open>_siftup\<close>
  (the item at \<open>pos\<close> is a hole).
\<close>

definition heap_inv :: "Patient list \<Rightarrow> bool" where
  "heap_inv h =
     (\<forall>i. 0 < i \<and> i < length h \<longrightarrow> priority (h ! i) \<le> priority (h ! ((i - 1) div 2)))"

definition sd_inv :: "Patient list \<Rightarrow> nat \<Rightarrow> bool" where
  "sd_inv g pos =
     (pos < length g \<and>
      (\<forall>i. 0 < i \<and> i < length g \<and> i \<noteq> pos \<longrightarrow>
           priority (g ! i) \<le> priority (g ! ((i - 1) div 2))) \<and>
      (\<forall>i. 0 < i \<and> i < length g \<and> (i - 1) div 2 = pos \<and> 0 < pos \<longrightarrow>
           priority (g ! i) \<le> priority (g ! ((pos - 1) div 2))))"

definition su_inv :: "Patient list \<Rightarrow> nat \<Rightarrow> bool" where
  "su_inv h pos =
     (pos < length h \<and>
      (\<forall>i. 0 < i \<and> i < length h \<and> i \<noteq> pos \<and> (i - 1) div 2 \<noteq> pos \<longrightarrow>
           priority (h ! i) \<le> priority (h ! ((i - 1) div 2))) \<and>
      (\<forall>i. 0 < i \<and> i < length h \<and> (i - 1) div 2 = pos \<and> 0 < pos \<longrightarrow>
           priority (h ! i) \<le> priority (h ! ((pos - 1) div 2))))"

section \<open>Properties\<close>

subsection \<open>Floats\<close>

lemma bit_length_bounds:
  "0 < n \<Longrightarrow> 1 \<le> bit_length n \<and> 2 ^ nat (bit_length n - 1) \<le> n \<and> n < 2 ^ nat (bit_length n)"
proof (induction n rule: bit_length.induct)
  case (1 n)
  define h where "h = n div 2"
  have bl: "bit_length n = 1 + bit_length h"
    using "1.prems" by (subst bit_length.simps) (simp add: h_def)
  show ?case
  proof (cases "h = 0")
    case True
    then have "n = 1" using "1.prems" unfolding h_def by presburger
    moreover have "bit_length h = 0" using True by (subst bit_length.simps) simp
    ultimately show ?thesis using bl by simp
  next
    case False
    then have hp: "0 < h" using "1.prems" unfolding h_def by presburger
    have ih: "1 \<le> bit_length h" "2 ^ nat (bit_length h - 1) \<le> h" "h < 2 ^ nat (bit_length h)"
      using "1.IH" "1.prems" hp unfolding h_def by simp_all
    define k where "k = nat (bit_length h - 1)"
    have kk: "nat (bit_length h) = Suc k" "nat (bit_length n - 1) = Suc k"
      "nat (bit_length n) = Suc (Suc k)"
      using ih(1) bl unfolding k_def by simp_all
    have n2: "2 * h \<le> n" "n \<le> 2 * h + 1" unfolding h_def by presburger+
    have a: "(2::int) ^ k \<le> h" using ih(2) unfolding k_def .
    have b: "h < (2::int) ^ Suc k" using ih(3) unfolding kk .
    have "(2::int) ^ Suc k \<le> n" using a n2 by simp
    moreover have "n < (2::int) ^ Suc (Suc k)" using b n2 by simp
    ultimately show ?thesis using bl ih(1) unfolding kk by simp
  qed
qed

lemma bit_length_real:
  assumes "0 < n"
  shows "2 powi (bit_length n - 1) \<le> real_of_int n" and "real_of_int n < 2 powi (bit_length n)"
proof -
  have b: "1 \<le> bit_length n" "2 ^ nat (bit_length n - 1) \<le> n" "n < 2 ^ nat (bit_length n)"
    using bit_length_bounds [OF assms] by simp_all
  have "real_of_int (2 ^ nat (bit_length n - 1)) \<le> real_of_int n"
    using b(2) by (simp only: of_int_le_iff)
  then show "2 powi (bit_length n - 1) \<le> real_of_int n"
    using b(1) by (simp add: power_int_def)
  have "real_of_int n < real_of_int (2 ^ nat (bit_length n))"
    using b(3) by (simp only: of_int_less_iff)
  then show "real_of_int n < 2 powi (bit_length n)"
    using b(1) by (simp add: power_int_def)
qed

lemma scale_up_ratio:
  assumes "b \<noteq> 0"
  shows "real_of_int (scale_up a (- e)) / real_of_int (scale_up b e)
         = (real_of_int a / real_of_int b) / 2 powi e"
proof (cases "0 \<le> e")
  case True
  then show ?thesis by (simp add: scale_up_def power_int_def)
next
  case False
  then show ?thesis by (simp add: scale_up_def power_int_def field_simps)
qed

lemma scale_up_pos: "0 < x \<Longrightarrow> 0 < scale_up x e"
  by (simp add: scale_up_def)

lemma round_half_even_cases:
  assumes "0 < d"
  shows "(round_half_even n d = n div d \<and> 2 * (n mod d) \<le> d) \<or>
         (round_half_even n d = n div d + 1 \<and> d \<le> 2 * (n mod d))"
  by (auto simp add: round_half_even_def Let_def)

lemma round_half_even_mono:
  assumes d: "0 < d" and le: "n1 \<le> n2"
  shows "round_half_even n1 d \<le> round_half_even n2 d"
proof -
  have q: "n1 div d \<le> n2 div d" using le d by (simp add: zdiv_mono1)
  show ?thesis
  proof (cases "n1 div d = n2 div d")
    case True
    have "n1 = d * (n1 div d) + n1 mod d" "n2 = d * (n2 div d) + n2 mod d" by simp_all
    then have r: "n1 mod d \<le> n2 mod d" using le True by (metis add_le_cancel_left)
    show ?thesis
      using r True by (auto simp add: round_half_even_def Let_def)
  next
    case False
    then have "n1 div d + 1 \<le> n2 div d" using q by simp
    moreover have "round_half_even n1 d \<le> n1 div d + 1"
      using round_half_even_cases [OF d, of n1] by auto
    moreover have "n2 div d \<le> round_half_even n2 d"
      using round_half_even_cases [OF d, of n2] by auto
    ultimately show ?thesis by simp
  qed
qed

lemma round_half_even_exact: "0 < d \<Longrightarrow> round_half_even (k * d) d = k"
  by (simp add: round_half_even_def Let_def)

lemma round_half_even_ge: "0 < d \<Longrightarrow> k * d \<le> n \<Longrightarrow> k \<le> round_half_even n d"
  using round_half_even_mono [of d "k * d" n] by (simp add: round_half_even_exact)

lemma round_half_even_le: "0 < d \<Longrightarrow> n \<le> k * d \<Longrightarrow> round_half_even n d \<le> k"
  using round_half_even_mono [of d n "k * d"] by (simp add: round_half_even_exact)

lemma round_half_even_near:
  assumes "0 < d"
  shows "2 * (round_half_even n d * d) \<le> 2 * n + d" and "2 * n \<le> 2 * (round_half_even n d * d) + d"
proof -
  define p where "p = (n div d) * d"
  define r where "r = n mod d"
  have n: "n = p + r" unfolding p_def r_def by simp
  have m: "0 \<le> r" "r < d" using assms unfolding r_def by simp_all
  consider "round_half_even n d * d = p" "2 * r \<le> d"
    | "round_half_even n d * d = p + d" "d \<le> 2 * r"
    using round_half_even_cases [OF assms, of n] unfolding p_def r_def
    by (auto simp add: algebra_simps)
  then have "2 * (round_half_even n d * d) \<le> 2 * n + d \<and> 2 * n \<le> 2 * (round_half_even n d * d) + d"
  proof cases
    case 1
    then show ?thesis using n m by linarith
  next
    case 2
    then show ?thesis using n m by linarith
  qed
  then show "2 * (round_half_even n d * d) \<le> 2 * n + d"
    and "2 * n \<le> 2 * (round_half_even n d * d) + d" by simp_all
qed

lemma float_exponent_bounds:
  assumes a: "0 < a" and b: "0 < b"
  shows "2 powi (52 + float_exponent a b) \<le> real_of_int a / real_of_int b"
    and "real_of_int a / real_of_int b < 2 powi (53 + float_exponent a b)"
proof -
  define X where "X = real_of_int a / real_of_int b"
  define la where "la = bit_length a"
  define lb where "lb = bit_length b"
  define e1 where "e1 = la - lb - 52"
  have ra: "2 powi (la - 1) \<le> real_of_int a" "real_of_int a < 2 powi la"
    using bit_length_real [OF a] unfolding la_def by simp_all
  have rb: "2 powi (lb - 1) \<le> real_of_int b" "real_of_int b < 2 powi lb"
    using bit_length_real [OF b] unfolding lb_def by simp_all
  have pa: "0 < real_of_int a" and pb: "0 < real_of_int b" using a b by simp_all
  have "X < 2 powi la / 2 powi (lb - 1)"
    unfolding X_def using pa ra(2) rb(1) by (intro frac_less) simp_all
  also have "\<dots> = 2 powi (53 + e1)"
    unfolding e1_def by (simp add: power_int_diff [symmetric] algebra_simps)
  finally have up: "X < 2 powi (53 + e1)" .
  have "2 powi (la - 1) / 2 powi lb < X"
    unfolding X_def using ra(1) rb(2) pb by (intro frac_less2) simp_all
  moreover have "2 powi (la - 1) / 2 powi lb = (2::real) powi (51 + e1)"
    unfolding e1_def by (simp add: power_int_diff [symmetric] algebra_simps)
  ultimately have low: "2 powi (51 + e1) < X" by simp
  have sp: "0 < real_of_int (scale_up b e1)" using scale_up_pos [OF b] by simp
  have "2 ^ 52 * scale_up b e1 \<le> scale_up a (- e1)
        \<longleftrightarrow> real_of_int (2 ^ 52 * scale_up b e1) \<le> real_of_int (scale_up a (- e1))"
    by (simp only: of_int_le_iff)
  also have "\<dots> \<longleftrightarrow> 2 ^ 52 \<le> real_of_int (scale_up a (- e1)) / real_of_int (scale_up b e1)"
    using sp by (simp add: pos_le_divide_eq)
  also have "\<dots> \<longleftrightarrow> 2 ^ 52 \<le> X / 2 powi e1"
    using scale_up_ratio [of b a e1] b unfolding X_def by simp
  also have "\<dots> \<longleftrightarrow> 2 ^ 52 * 2 powi e1 \<le> X"
    by (simp add: pos_le_divide_eq)
  also have "2 ^ 52 * 2 powi e1 = (2::real) powi (52 + e1)"
    by (simp add: power_int_add)
  finally have test: "2 ^ 52 * scale_up b e1 \<le> scale_up a (- e1) \<longleftrightarrow> 2 powi (52 + e1) \<le> X" .
  have fe: "float_exponent a b = (if 2 powi (52 + e1) \<le> X then e1 else e1 - 1)"
    unfolding float_exponent_def Let_def la_def [symmetric] lb_def [symmetric] e1_def [symmetric]
    using test by simp
  show "2 powi (52 + float_exponent a b) \<le> real_of_int a / real_of_int b"
  proof (cases "2 powi (52 + e1) \<le> X")
    case True
    then show ?thesis using fe unfolding X_def by simp
  next
    case False
    have "52 + (e1 - 1) = 51 + e1" by simp
    then show ?thesis using False fe low unfolding X_def by simp
  qed
  show "real_of_int a / real_of_int b < 2 powi (53 + float_exponent a b)"
  proof (cases "2 powi (52 + e1) \<le> X")
    case True
    then show ?thesis using fe up unfolding X_def by simp
  next
    case False
    have "53 + (e1 - 1) = 52 + e1" by simp
    then show ?thesis using False fe unfolding X_def by simp
  qed
qed

lemma float_exponent_scaled:
  assumes a: "0 < a" and b: "0 < b"
  shows "2 ^ 52 * scale_up b (float_exponent a b) \<le> scale_up a (- float_exponent a b)"
    and "scale_up a (- float_exponent a b) < 2 ^ 53 * scale_up b (float_exponent a b)"
proof -
  define e where "e = float_exponent a b"
  define N where "N = scale_up a (- e)"
  define D where "D = scale_up b e"
  define X where "X = real_of_int a / real_of_int b"
  define P where "P = (2::real) powi e"
  have P: "0 < P" unfolding P_def by simp
  have D: "0 < real_of_int D" using scale_up_pos [OF b] unfolding D_def by simp
  have r: "real_of_int N / real_of_int D = X / P"
    unfolding N_def D_def X_def P_def using scale_up_ratio [of b a e] b by simp
  have "2 powi (52 + e) \<le> X"
    using float_exponent_bounds(1) [OF a b] unfolding e_def X_def .
  then have "2 ^ 52 * P \<le> X"
    unfolding P_def by (simp add: power_int_add)
  then have "2 ^ 52 \<le> X / P"
    using P by (simp add: pos_le_divide_eq)
  then have "2 ^ 52 \<le> real_of_int N / real_of_int D"
    unfolding r .
  then have "2 ^ 52 * real_of_int D \<le> real_of_int N"
    using D by (simp add: pos_le_divide_eq)
  then have "real_of_int (2 ^ 52 * D) \<le> real_of_int N" by simp
  then show "2 ^ 52 * scale_up b (float_exponent a b) \<le> scale_up a (- float_exponent a b)"
    unfolding N_def D_def e_def by (simp only: of_int_le_iff)
  have "X < 2 powi (53 + e)"
    using float_exponent_bounds(2) [OF a b] unfolding e_def X_def .
  then have "X < 2 ^ 53 * P"
    unfolding P_def by (simp add: power_int_add)
  then have "X / P < 2 ^ 53"
    using P by (simp add: pos_divide_less_eq)
  then have "real_of_int N / real_of_int D < 2 ^ 53"
    unfolding r .
  then have "real_of_int N < 2 ^ 53 * real_of_int D"
    using D by (simp add: pos_divide_less_eq)
  then have "real_of_int N < real_of_int (2 ^ 53 * D)" by simp
  then show "scale_up a (- float_exponent a b) < 2 ^ 53 * scale_up b (float_exponent a b)"
    unfolding N_def D_def e_def by (simp only: of_int_less_iff)
qed

lemma true_divide_pos:
  assumes "0 < a"
  shows "true_divide a b =
     (round_half_even (scale_up a (- float_exponent a b)) (scale_up b (float_exponent a b)),
      float_exponent a b)"
  using assms by (simp add: true_divide_def Let_def)

lemma man_bounds:
  assumes a: "0 < a" and b: "0 < b"
  shows "2 ^ 52 \<le> round_half_even (scale_up a (- float_exponent a b)) (scale_up b (float_exponent a b))"
    and "round_half_even (scale_up a (- float_exponent a b)) (scale_up b (float_exponent a b)) \<le> 2 ^ 53"
proof -
  have D: "0 < scale_up b (float_exponent a b)" using scale_up_pos [OF b] .
  show "2 ^ 52 \<le> round_half_even (scale_up a (- float_exponent a b)) (scale_up b (float_exponent a b))"
    using float_exponent_scaled(1) [OF a b] by (intro round_half_even_ge [OF D])
  have "scale_up a (- float_exponent a b) \<le> 2 ^ 53 * scale_up b (float_exponent a b)"
    using float_exponent_scaled(2) [OF a b] by simp
  then show "round_half_even (scale_up a (- float_exponent a b)) (scale_up b (float_exponent a b)) \<le> 2 ^ 53"
    by (intro round_half_even_le [OF D])
qed

lemma float_exponent_mono:
  assumes a: "0 < a1" "a1 \<le> a2" and b: "0 < b"
  shows "float_exponent a1 b \<le> float_exponent a2 b"
proof (rule ccontr)
  assume "\<not> float_exponent a1 b \<le> float_exponent a2 b"
  then have lt: "53 + float_exponent a2 b \<le> 52 + float_exponent a1 b" by simp
  have a2: "0 < a2" using a by simp
  have "real_of_int a1 / real_of_int b \<le> real_of_int a2 / real_of_int b"
    using a b by (simp add: divide_right_mono)
  also have "\<dots> < 2 powi (53 + float_exponent a2 b)"
    using float_exponent_bounds(2) [OF a2 b] .
  also have "\<dots> \<le> 2 powi (52 + float_exponent a1 b)"
    using lt by (intro power_int_increasing) simp_all
  also have "\<dots> \<le> real_of_int a1 / real_of_int b"
    using float_exponent_bounds(1) [OF a(1) b] .
  finally show False by simp
qed

lemma scale_up_mono: "x \<le> y \<Longrightarrow> scale_up x e \<le> scale_up y e"
  by (simp add: scale_up_def)

lemma float_val_true_divide_mono:
  assumes a: "0 < a1" "a1 \<le> a2" and b: "0 < b"
  shows "float_val (true_divide a1 b) \<le> float_val (true_divide a2 b)"
proof -
  have a2: "0 < a2" using a by simp
  define e1 where "e1 = float_exponent a1 b"
  define e2 where "e2 = float_exponent a2 b"
  define m1 where "m1 = round_half_even (scale_up a1 (- e1)) (scale_up b e1)"
  define m2 where "m2 = round_half_even (scale_up a2 (- e2)) (scale_up b e2)"
  have v1: "float_val (true_divide a1 b) = real_of_int m1 * 2 powi e1"
    using true_divide_pos [OF a(1), of b] by (simp add: float_val_def m1_def e1_def)
  have v2: "float_val (true_divide a2 b) = real_of_int m2 * 2 powi e2"
    using true_divide_pos [OF a2, of b] by (simp add: float_val_def m2_def e2_def)
  have le: "e1 \<le> e2" unfolding e1_def e2_def using a b by (rule float_exponent_mono)
  have mb1: "m1 \<le> 2 ^ 53" unfolding m1_def e1_def using man_bounds(2) [OF a(1) b] .
  have mb2: "2 ^ 52 \<le> m2" unfolding m2_def e2_def using man_bounds(1) [OF a2 b] .
  show ?thesis
  proof (cases "e1 = e2")
    case True
    have "m1 \<le> m2"
      unfolding m1_def m2_def True
      using scale_up_pos [OF b] scale_up_mono [OF a(2)] by (intro round_half_even_mono)
    then have "real_of_int m1 * 2 powi e2 \<le> real_of_int m2 * 2 powi e2"
      by (intro mult_right_mono) simp_all
    then show ?thesis unfolding v1 v2 True .
  next
    case False
    then have lt: "53 + e1 \<le> 52 + e2" using le by simp
    have "real_of_int m1 * 2 powi e1 \<le> 2 ^ 53 * 2 powi e1"
      using mb1 by (intro mult_right_mono) (simp_all add: of_int_le_numeral_power_cancel_iff)
    also have "\<dots> = 2 powi (53 + e1)" by (simp add: power_int_add)
    also have "\<dots> \<le> 2 powi (52 + e2)" using lt by (intro power_int_increasing) simp_all
    also have "\<dots> = 2 ^ 52 * 2 powi e2" by (simp add: power_int_add)
    also have "\<dots> \<le> real_of_int m2 * 2 powi e2"
      using mb2 by (intro mult_right_mono) (simp_all add: numeral_power_le_of_int_cancel_iff)
    finally show ?thesis unfolding v1 v2 .
  qed
qed

lemma float_floordiv_val:
  assumes "0 < k"
  shows "float_floordiv x k = \<lfloor>float_val x / real_of_int k\<rfloor>"
proof -
  obtain m e where x: "x = (m, e)" by (cases x)
  have "real_of_int (scale_up m e) / real_of_int (scale_up k (- e))
        = (real_of_int m / real_of_int k) / 2 powi (- e)"
    using scale_up_ratio [of k m "- e"] assms by simp
  also have "\<dots> = real_of_int m * 2 powi e / real_of_int k"
    by (simp add: power_int_minus field_simps)
  finally have "\<lfloor>real_of_int m * 2 powi e / real_of_int k\<rfloor>
      = \<lfloor>real_of_int (scale_up m e) / real_of_int (scale_up k (- e))\<rfloor>" by simp
  also have "\<dots> = scale_up m e div scale_up k (- e)" by (rule floor_divide_of_int_eq)
  finally show ?thesis unfolding x by (simp add: float_floordiv_def float_val_def)
qed

lemma total_seconds_floordiv_nonpos:
  assumes "td \<le> 0" and "0 < s"
  shows "total_seconds_floordiv td s \<le> 0"
proof (cases "td = 0")
  case True
  then show ?thesis
    by (simp add: total_seconds_floordiv_def total_seconds_def true_divide_def float_floordiv_def
        scale_up_def)
next
  case False
  then have n: "0 < - td" using assms by simp
  define e where "e = float_exponent (- td) 1000000"
  define m where "m = round_half_even (scale_up (- td) (- e)) (scale_up 1000000 e)"
  have "0 \<le> m" unfolding m_def e_def using man_bounds(1) [OF n, of 1000000] by simp
  moreover have "true_divide td 1000000 = (- m, e)"
    using n False by (simp add: true_divide_def Let_def m_def e_def)
  ultimately have "float_val (total_seconds td) \<le> 0"
    by (simp add: total_seconds_def float_val_def mult_nonneg_nonneg)
  then have "float_val (total_seconds td) / real_of_int s \<le> 0"
    using assms(2) by (simp add: divide_le_0_iff)
  then have "\<lfloor>float_val (total_seconds td) / real_of_int s\<rfloor> \<le> 0"
    by (simp add: floor_le_iff)
  then show ?thesis
    unfolding total_seconds_floordiv_def float_floordiv_val [OF assms(2)] .
qed

lemma total_seconds_floordiv_mono:
  assumes "td1 \<le> td2" and "0 < s"
  shows "max 0 (total_seconds_floordiv td1 s) \<le> max 0 (total_seconds_floordiv td2 s)"
proof (cases "0 < td1")
  case False
  then have "total_seconds_floordiv td1 s \<le> 0"
    using assms(2) by (intro total_seconds_floordiv_nonpos) simp_all
  then show ?thesis by simp
next
  case True
  have "float_val (total_seconds td1) \<le> float_val (total_seconds td2)"
    unfolding total_seconds_def using True assms(1) by (intro float_val_true_divide_mono) simp_all
  then have "float_val (total_seconds td1) / real_of_int s
             \<le> float_val (total_seconds td2) / real_of_int s"
    using assms(2) by (simp add: divide_right_mono)
  then have "total_seconds_floordiv td1 s \<le> total_seconds_floordiv td2 s"
    unfolding total_seconds_floordiv_def float_floordiv_val [OF assms(2)] by (rule floor_mono)
  then show ?thesis by simp
qed

lemma total_seconds_floordiv_exact:
  assumes pos: "0 < td" and small: "td < 17179869184000000"
  shows "total_seconds_floordiv td 60 = td div 60000000"
proof -
  define e where "e = float_exponent td 1000000"
  define j where "j = nat (- e)"
  define t where "t = (2::int) ^ j"
  define m where "m = round_half_even (scale_up td (- e)) (scale_up 1000000 e)"
  define K where "K = td div 60000000"
  have "2 powi (52 + e) \<le> real_of_int td / real_of_int 1000000"
    unfolding e_def using pos by (intro float_exponent_bounds(1)) simp_all
  also have "\<dots> < 17179869184"
    using small by (simp add: pos_divide_less_eq)
  also have "(17179869184::real) = 2 powi 34" by simp
  finally have "52 + e < 34"
    by (intro power_int_le_imp_less_exp [of "2::real"]) simp_all
  then have e: "e \<le> - 19" by simp
  then have j: "19 \<le> j" "e = - int j" unfolding j_def by simp_all
  have "(2::int) ^ 19 \<le> 2 ^ j" using j(1) by (intro power_increasing) simp_all
  then have t: "524288 \<le> t" unfolding t_def by simp
  have N: "scale_up td (- e) = td * t" unfolding scale_up_def t_def j(2) by simp
  have D: "scale_up 1000000 e = 1000000" unfolding scale_up_def j(2) by simp
  have m': "m = round_half_even (td * t) 1000000" unfolding m_def N D ..
  have K: "60000000 * K \<le> td" "td \<le> 60000000 * K + 59999999"
    unfolding K_def by presburger+
  define u where "u = K * t"
  have tpos: "0 \<le> t" using t by simp
  have lo: "60000000 * u \<le> td * t"
    using mult_right_mono [OF K(1) tpos] unfolding u_def by (simp add: algebra_simps)
  have hi: "td * t \<le> 60000000 * u + 59999999 * t"
    using mult_right_mono [OF K(2) tpos] unfolding u_def by (simp add: algebra_simps)
  have "(60 * u) * 1000000 \<le> td * t" using lo by simp
  then have ml: "60 * u \<le> m" unfolding m' by (intro round_half_even_ge) simp_all
  have "2 * (m * 1000000) \<le> 2 * (td * t) + 1000000"
    unfolding m' by (intro round_half_even_near(1)) simp
  then have mu: "m < 60 * u + 60 * t" using hi t by linarith
  have fd: "total_seconds_floordiv td 60 = m div (60 * t)"
    using pos
    by (simp add: total_seconds_floordiv_def total_seconds_def true_divide_pos float_floordiv_def
        m_def e_def [symmetric] scale_up_def j(2) t_def)
  have "m div (60 * t) = K"
  proof (rule int_div_pos_eq [where r = "m - 60 * u"])
    show "m = 60 * t * K + (m - 60 * u)" unfolding u_def by simp
    show "0 \<le> m - 60 * u" using ml by simp
    show "m - 60 * u < 60 * t" using mu by simp
  qed
  then show ?thesis unfolding fd K_def .
qed

lemma total_seconds_floordiv_delay:
  assumes "td < 17179869184000000"
  shows "max 0 (total_seconds_floordiv td 60) = max 0 (td div 60000000)"
proof (cases "0 < td")
  case True
  then show ?thesis using total_seconds_floordiv_exact [OF True assms] by simp
next
  case False
  then have "total_seconds_floordiv td 60 \<le> 0"
    by (intro total_seconds_floordiv_nonpos) simp_all
  moreover have "td div 60000000 \<le> 0" using False by presburger
  ultimately show ?thesis by simp
qed

subsection \<open>Priority model\<close>

lemmas init_defs = Patient_init_def uuid4_str_def or_else_seq_def or_else_def datetime_now_def
  calculate_urgency_def generate_medical_condition_def random_choice_def conditions_def
  default_name_def random_randint_def Let_def

lemma dict_get_source_priority:
  "dict_get source_priority src 0 = spec_source_adjustment src"
  by (simp add: dict_get_def source_priority_def spec_source_adjustment_def)

lemma calculate_priority_spec:
  assumes "arrival_time p - scheduled_time p < 17179869184000000"
  shows "calculate_priority p
         = spec_priority (urgency p) (scheduled_time p) (arrival_time p) (source p)"
  using total_seconds_floordiv_delay [OF assms]
  by (simp add: calculate_priority_def delay_of_def spec_priority_def spec_delay_minutes_def
      dict_get_source_priority)

lemma Patient_init_priority:
  "priority (fst (Patient_init n c s src cond w)) =
   calculate_priority (fst (Patient_init n c s src cond w))"
  by (simp add: Patient_init_def Let_def calculate_priority_def delay_of_def split: prod.splits)

lemma patient_at_fields:
  "patient_at sched r t =
     \<lparr>patient_id = ''uuid'', name = ''Ann'', contact_number = None, scheduled_time = sched,
      arrival_time = t, source = ''App'', medical_condition = (''Acute Pain'', 4),
      urgency = snd (conditions ! (r mod 5)),
      priority = snd (conditions ! (r mod 5)) * 10
                 - max 0 (total_seconds_floordiv (t - sched) 60) + 1,
      status = ''Scheduled'', wait_time = None\<rparr>"
  by (simp add: patient_at_def world_const_def init_defs calculate_priority_def delay_of_def
      dict_get_def source_priority_def)

lemma patient_at_3:
  "patient_at sched 3 t =
     \<lparr>patient_id = ''uuid'', name = ''Ann'', contact_number = None, scheduled_time = sched,
      arrival_time = t, source = ''App'', medical_condition = (''Acute Pain'', 4),
      urgency = 4, priority = 41 - max 0 (total_seconds_floordiv (t - sched) 60),
      status = ''Scheduled'', wait_time = None\<rparr>"
  by (simp add: patient_at_fields conditions_def)

lemma delay_of_mono:
  assumes "arrival_time q1 = arrival_time q2" and "scheduled_time q1 \<le> scheduled_time q2"
  shows "delay_of q2 \<le> delay_of q1"
proof -
  have "arrival_time q2 - scheduled_time q2 \<le> arrival_time q1 - scheduled_time q1"
    using assms by simp
  then show ?thesis
    unfolding delay_of_def by (intro total_seconds_floordiv_mono) simp_all
qed

lemma total_seconds_floordiv_far:
  "total_seconds_floordiv 63839663999999999 60 = 1063994400"
  "total_seconds_floordiv 17179869239999999 60 = 286331154"
  by code_simp+

text \<open>
  Claim C1, as stated, fails. The delay is the floor of the rounded float
  \<open>total_seconds()\<close>, not of the exact minutes. A patient scheduled one microsecond after
  the origin and arriving 63839664000 seconds after it has an exact delay of 1063994399
  minutes, but the code computes 1063994400 and a priority of \<open>-1063994389\<close> where the
  formula gives \<open>-1063994388\<close>. The same happens from the first minute boundary after
  \<open>2 ** 34\<close> seconds: a span of 17179869239999999 microseconds has 286331153 whole
  minutes and the code computes 286331154.
\<close>

theorem priority_formula_counterexample:
  "arrival_time (patient_at 1 0 63839664000000000)
     - scheduled_time (patient_at 1 0 63839664000000000) = 63839663999999999 \<and>
   delay_of (patient_at 1 0 63839664000000000) = 1063994400 \<and>
   spec_delay_minutes (scheduled_time (patient_at 1 0 63839664000000000))
     (arrival_time (patient_at 1 0 63839664000000000)) = 1063994399 \<and>
   priority (patient_at 1 0 63839664000000000) = - 1063994389 \<and>
   spec_priority (urgency (patient_at 1 0 63839664000000000))
     (scheduled_time (patient_at 1 0 63839664000000000))
     (arrival_time (patient_at 1 0 63839664000000000))
     (source (patient_at 1 0 63839664000000000)) = - 1063994388 \<and>
   delay_of (patient_at 1 0 17179869240000000) = 286331154 \<and>
   spec_delay_minutes (scheduled_time (patient_at 1 0 17179869240000000))
     (arrival_time (patient_at 1 0 17179869240000000)) = 286331153"
  by (simp add: patient_at_fields conditions_def delay_of_def total_seconds_floordiv_far
      spec_priority_def spec_delay_minutes_def spec_source_adjustment_def)

text \<open>
  Claim C1, amended. For every patient whose arrival time is less than \<open>2 ** 34\<close> seconds
  (17179869184 seconds, about 544 years) after its scheduled time, the computed priority
  equals \<open>urgency * 10 - delay_minutes + source_adjustment\<close>, where \<open>delay_minutes\<close> is the
  floor of the minutes from the scheduled time to the arrival time, at least 0, and the
  adjustment is \<open>-1\<close> for Walk-in, \<open>+1\<close> for App, \<open>0\<close> for WhatsApp and \<open>0\<close> for any
  unknown source. This holds of \<open>calculate_priority\<close> on every such patient record, and
  of the \<open>priority\<close> attribute of every such patient the constructor returns.
\<close>

theorem priority_formula_within_span:
  "(arrival_time p - scheduled_time p < 17179869184000000 \<longrightarrow>
      calculate_priority p
        = spec_priority (urgency p) (scheduled_time p) (arrival_time p) (source p)) \<and>
   (arrival_time (fst (Patient_init n c s src cond w))
      - scheduled_time (fst (Patient_init n c s src cond w)) < 17179869184000000 \<longrightarrow>
      priority (fst (Patient_init n c s src cond w)) =
        spec_priority (urgency (fst (Patient_init n c s src cond w)))
          (scheduled_time (fst (Patient_init n c s src cond w)))
          (arrival_time (fst (Patient_init n c s src cond w)))
          (source (fst (Patient_init n c s src cond w))))"
  using Patient_init_priority calculate_priority_spec by simp

theorem priority_formula_within_span_witness:
  "arrival_time (patient_at 0 3 600000000) - scheduled_time (patient_at 0 3 600000000)
     < 17179869184000000 \<and>
   calculate_priority (patient_at 0 3 600000000) = 31 \<and>
   priority (patient_at 0 3 600000000) = 31 \<and>
   spec_priority 4 0 600000000 ''App'' = 31"
  using priority_formula_within_span [of "patient_at 0 3 600000000" "Some ''Ann''" None "Some 0"
      "Some ''App''" "Some (''Acute Pain'', 4)" "world_const 3 600000000",
      folded patient_at_def]
  by (simp add: patient_at_3 total_seconds_floordiv_delay spec_priority_def
      spec_delay_minutes_def spec_source_adjustment_def)

text \<open>
  Claim C2, as stated, fails: a longer delay lowers the priority. Two patients with the
  same source, condition, urgency and arrival instant, the first scheduled five
  minutes before the second, get priorities 31 and 36. (With the same source and
  condition but urgencies 5 and 4, the earlier-scheduled patient gets 41 against 36:
  the condition does not fix the urgency, so the comparison needs equal urgencies.)
\<close>

theorem priority_delay_counterexample:
  "source (patient_at 0 3 600000000) = source (patient_at 300000000 3 600000000) \<and>
   medical_condition (patient_at 0 3 600000000)
     = medical_condition (patient_at 300000000 3 600000000) \<and>
   urgency (patient_at 0 3 600000000) = urgency (patient_at 300000000 3 600000000) \<and>
   arrival_time (patient_at 0 3 600000000) = arrival_time (patient_at 300000000 3 600000000) \<and>
   scheduled_time (patient_at 0 3 600000000) < scheduled_time (patient_at 300000000 3 600000000) \<and>
   delay_of (patient_at 300000000 3 600000000) < delay_of (patient_at 0 3 600000000) \<and>
   priority (patient_at 0 3 600000000) < priority (patient_at 300000000 3 600000000) \<and>
   medical_condition (patient_at 0 4 600000000)
     = medical_condition (patient_at 300000000 3 600000000) \<and>
   priority (patient_at 300000000 3 600000000) < priority (patient_at 0 4 600000000)"
  by (simp add: patient_at_fields conditions_def delay_of_def total_seconds_floordiv_delay)

text \<open>
  Claim C2, amended. For fixed urgency and source the priority is non-increasing in
  the delay (more minutes overdue never raises it); in particular, of two constructed
  patients with equal urgency and source that arrive at the same instant, the one
  scheduled earlier has a priority no greater than the other's.
\<close>

theorem priority_antitone_in_delay:
  "(urgency p1 = urgency p2 \<and> source p1 = source p2 \<and> delay_of p1 \<le> delay_of p2
      \<longrightarrow> calculate_priority p2 \<le> calculate_priority p1) \<and>
   (urgency (fst (Patient_init n1 c1 (Some s1) src1 cond1 w1))
      = urgency (fst (Patient_init n2 c2 (Some s2) src2 cond2 w2)) \<and>
    source (fst (Patient_init n1 c1 (Some s1) src1 cond1 w1))
      = source (fst (Patient_init n2 c2 (Some s2) src2 cond2 w2)) \<and>
    arrival_time (fst (Patient_init n1 c1 (Some s1) src1 cond1 w1))
      = arrival_time (fst (Patient_init n2 c2 (Some s2) src2 cond2 w2)) \<and>
    scheduled_time (fst (Patient_init n1 c1 (Some s1) src1 cond1 w1))
      < scheduled_time (fst (Patient_init n2 c2 (Some s2) src2 cond2 w2))
      \<longrightarrow> priority (fst (Patient_init n1 c1 (Some s1) src1 cond1 w1))
            \<le> priority (fst (Patient_init n2 c2 (Some s2) src2 cond2 w2)))"
proof (intro conjI impI)
  assume "urgency p1 = urgency p2 \<and> source p1 = source p2 \<and> delay_of p1 \<le> delay_of p2"
  then show "calculate_priority p2 \<le> calculate_priority p1"
    by (simp add: calculate_priority_def)
next
  let ?q1 = "fst (Patient_init n1 c1 (Some s1) src1 cond1 w1)"
  let ?q2 = "fst (Patient_init n2 c2 (Some s2) src2 cond2 w2)"
  assume h: "urgency ?q1 = urgency ?q2 \<and> source ?q1 = source ?q2 \<and>
    arrival_time ?q1 = arrival_time ?q2 \<and> scheduled_time ?q1 < scheduled_time ?q2"
  then have "delay_of ?q2 \<le> delay_of ?q1"
    using delay_of_mono [of ?q1 ?q2] by simp
  with h have "calculate_priority ?q1 \<le> calculate_priority ?q2"
    by (simp add: calculate_priority_def)
  then show "priority ?q1 \<le> priority ?q2"
    by (simp only: Patient_init_priority)
qed

theorem priority_antitone_in_delay_witness:
  "delay_of (patient_at 300000000 3 600000000) \<le> delay_of (patient_at 0 3 600000000) \<and>
   calculate_priority (patient_at 0 3 600000000)
     \<le> calculate_priority (patient_at 300000000 3 600000000) \<and>
   scheduled_time (patient_at 0 3 600000000) < scheduled_time (patient_at 300000000 3 600000000) \<and>
   priority (patient_at 0 3 600000000) \<le> priority (patient_at 300000000 3 600000000)"
  using priority_antitone_in_delay
    [of "patient_at 300000000 3 600000000" "patient_at 0 3 600000000"
        "Some ''Ann''" None 0 "Some ''App''" "Some (''Acute Pain'', 4)" "world_const 3 600000000"
        "Some ''Ann''" None 300000000 "Some ''App''" "Some (''Acute Pain'', 4)"
        "world_const 3 600000000", folded patient_at_def]
  by (simp add: patient_at_3 delay_of_def calculate_priority_def total_seconds_floordiv_delay
      dict_get_def source_priority_def)

subsection \<open>Doctor queue: the heap operations\<close>

lemma mset_update_swap:
  assumes "i < length h" "j < length h" "i \<noteq> j"
  shows "mset (h[i := h ! j, j := x]) = mset (h[i := x])"
  using assms by (simp add: mset_update nth_list_update)

lemma length_siftdown_loop [simp]:
  "length (siftdown_loop lt h x s pos) = length h"
proof (induction lt h x s pos rule: siftdown_loop.induct)
  case (1 lt heap newitem startpos pos)
  show ?case
    using 1 by (subst siftdown_loop.simps) (simp add: Let_def)
qed

lemma mset_siftdown_loop:
  "pos < length h \<Longrightarrow> mset (siftdown_loop lt h x s pos) = mset (h[pos := x])"
proof (induction lt h x s pos rule: siftdown_loop.induct)
  case (1 lt heap newitem startpos pos)
  let ?pp = "(pos - 1) div 2"
  show ?case
  proof (cases "startpos < pos \<and> lt newitem (heap ! ?pp)")
    case True
    then have pp: "?pp < pos" by arith
    have "mset (siftdown_loop lt heap newitem startpos pos) =
          mset (siftdown_loop lt (heap[pos := heap ! ?pp]) newitem startpos ?pp)"
      using True by (subst siftdown_loop.simps) (simp add: Let_def)
    also have "\<dots> = mset (heap[pos := heap ! ?pp, ?pp := newitem])"
      using True pp "1.prems" by (intro "1.IH") auto
    also have "\<dots> = mset (heap[pos := newitem])"
      using pp "1.prems" by (intro mset_update_swap) auto
    finally show ?thesis .
  next
    case False
    then show ?thesis
      by (subst siftdown_loop.simps) (auto simp add: Let_def)
  qed
qed

lemma siftup_loop_props:
  "pos < length h \<Longrightarrow> siftup_loop lt h pos = (h', pos') \<Longrightarrow>
     length h' = length h \<and> pos' < length h \<and> length h \<le> 2 * pos' + 1 \<and>
     mset (h'[pos' := x]) = mset (h[pos := x])"
proof (induction lt h pos arbitrary: h' pos' rule: siftup_loop.induct)
  case (1 lt heap pos)
  let ?c = "2 * pos + 1"
  let ?c' = "if ?c + 1 < length heap \<and> \<not> lt (heap ! ?c) (heap ! (?c + 1)) then ?c + 1 else ?c"
  show ?case
  proof (cases "?c < length heap")
    case True
    then have c': "?c' < length heap" "pos \<noteq> ?c'" by auto
    have eq: "siftup_loop lt (heap[pos := heap ! ?c']) ?c' = (h', pos')"
      using True "1.prems"(2) by (subst (asm) siftup_loop.simps) (auto simp add: Let_def)
    have ih: "length h' = length (heap[pos := heap ! ?c']) \<and> pos' < length (heap[pos := heap ! ?c']) \<and>
       length (heap[pos := heap ! ?c']) \<le> 2 * pos' + 1 \<and>
       mset (h'[pos' := x]) = mset (heap[pos := heap ! ?c', ?c' := x])"
      using True c' eq by (intro "1.IH"[OF refl refl True refl refl]) auto
    have "mset (heap[pos := heap ! ?c', ?c' := x]) = mset (heap[pos := x])"
      using c' "1.prems"(1) by (intro mset_update_swap) auto
    with ih show ?thesis by simp
  next
    case False
    then have "h' = heap" "pos' = pos"
      using "1.prems"(2) by (subst (asm) siftup_loop.simps, simp add: Let_def)+
    with False "1.prems"(1) show ?thesis by simp
  qed
qed

lemma mset_siftup: "pos < length h \<Longrightarrow> mset (siftup lt h pos) = mset h"
proof -
  assume p: "pos < length h"
  obtain h' pos' where e: "siftup_loop lt h pos = (h', pos')" by (cases "siftup_loop lt h pos")
  from siftup_loop_props [OF p e, of "h ! pos"]
  have l: "length h' = length h" "pos' < length h" and m: "mset (h'[pos' := h ! pos]) = mset h"
    by simp_all
  have "siftup lt h pos = siftdown_loop lt (h'[pos' := h ! pos]) (h ! pos) pos pos'"
    using e l by (simp add: siftup_def siftdown_def Let_def)
  then show ?thesis using l m by (simp add: mset_siftdown_loop)
qed

lemma mset_heappush: "mset (heappush lt h x) = add_mset x (mset h)"
  by (simp add: heappush_def siftdown_def mset_siftdown_loop)

lemma heappop_mset:
  assumes "h \<noteq> []"
  shows "\<exists>h'. heappop lt h = Inr (h ! 0, h') \<and> mset h = add_mset (h ! 0) (mset h')"
proof (cases h rule: rev_cases)
  case Nil
  with assms show ?thesis by simp
next
  case (snoc ys l)
  show ?thesis
  proof (cases "ys = []")
    case True
    with snoc show ?thesis by (simp add: heappop_def)
  next
    case False
    then have z: "h ! 0 = ys ! 0" and len: "0 < length ys"
      using snoc by (simp_all add: nth_append)
    have "mset (siftup lt (ys[0 := l]) 0) = mset (ys[0 := l])"
      using len by (intro mset_siftup) simp
    also have "\<dots> = add_mset l (mset ys - {#ys ! 0#})"
      using len by (simp add: mset_update)
    finally have m: "mset (siftup lt (ys[0 := l]) 0) = add_mset l (mset ys - {#ys ! 0#})" .
    have "ys ! 0 \<in># mset ys" using len by simp
    then have "mset ys = add_mset (ys ! 0) (mset ys - {#ys ! 0#})" by simp
    then have "mset h = add_mset (ys ! 0) (add_mset l (mset ys - {#ys ! 0#}))"
      using snoc by simp
    with m z False snoc show ?thesis
      by (simp add: heappop_def Let_def)
  qed
qed

lemma sd_inv_step:
  assumes inv: "sd_inv (h[pos := x]) pos" and pos: "0 < pos"
    and lt: "priority (h ! ((pos - 1) div 2)) < priority x"
  shows "sd_inv (h[pos := h ! ((pos - 1) div 2), (pos - 1) div 2 := x]) ((pos - 1) div 2)"
proof -
  define pp where "pp = (pos - 1) div 2"
  define g2 where "g2 = h[pos := h ! pp, pp := x]"
  have pl: "pos < length h" using inv by (simp add: sd_inv_def)
  have pp: "pp < pos" using pos unfolding pp_def by arith
  have g2_pp: "g2 ! pp = x" using pl pp by (simp add: g2_def)
  have g2_pos: "g2 ! pos = h ! pp" using pl pp by (simp add: g2_def)
  have g2_other: "g2 ! i = h ! i" if "i \<noteq> pos" "i \<noteq> pp" for i
    using that by (simp add: g2_def)
  have inv1: "priority (h ! i) \<le> priority (h ! ((i - 1) div 2))"
    if "0 < i" "i < length h" "i \<noteq> pos" "(i - 1) div 2 \<noteq> pos" for i
  proof -
    have "priority (h[pos := x] ! i) \<le> priority (h[pos := x] ! ((i - 1) div 2))"
      using inv that unfolding sd_inv_def length_list_update by blast
    then show ?thesis using that by simp
  qed
  have inv2: "priority (h ! i) \<le> priority (h ! pp)"
    if "0 < i" "i < length h" "(i - 1) div 2 = pos" for i
  proof -
    have ne: "i \<noteq> pos" using that(1,3) by arith
    have "priority (h[pos := x] ! i) \<le> priority (h[pos := x] ! ((pos - 1) div 2))"
      using inv that pos unfolding sd_inv_def length_list_update by blast
    then show ?thesis using ne pp by (simp add: pp_def)
  qed
  have a: "priority (g2 ! i) \<le> priority (g2 ! ((i - 1) div 2))"
    if i: "0 < i" "i < length h" "i \<noteq> pp" for i
  proof -
    define q where "q = (i - 1) div 2"
    have qi: "q < i" using i(1) unfolding q_def by arith
    consider (top) "i = pos" | (sib) "i \<noteq> pos" "q = pp" | (child) "i \<noteq> pos" "q = pos"
      | (far) "i \<noteq> pos" "q \<noteq> pp" "q \<noteq> pos" by blast
    then have "priority (g2 ! i) \<le> priority (g2 ! q)"
    proof cases
      case top
      then have "q = pp" by (simp add: q_def pp_def)
      then show ?thesis using top g2_pos g2_pp lt by (simp add: pp_def)
    next
      case sib
      have "priority (h ! i) \<le> priority (h ! pp)"
        using inv1 [OF i(1,2) sib(1)] sib(2) pp by (simp add: q_def)
      then show ?thesis using sib g2_other [OF sib(1) i(3)] g2_pp lt by (simp add: pp_def)
    next
      case child
      have "priority (h ! i) \<le> priority (h ! pp)"
        using inv2 [OF i(1,2)] child(2) by (simp add: q_def)
      then show ?thesis using child g2_other [OF child(1) i(3)] g2_pos by simp
    next
      case far
      have "priority (h ! i) \<le> priority (h ! q)"
        using inv1 [OF i(1,2) far(1)] far(3) by (simp add: q_def)
      then show ?thesis using g2_other [OF far(1) i(3)] g2_other [OF far(3) far(2)] by simp
    qed
    then show ?thesis by (simp add: q_def)
  qed
  have b: "priority (g2 ! i) \<le> priority (g2 ! ((pp - 1) div 2))"
    if i: "0 < i" "i < length h" "(i - 1) div 2 = pp" "0 < pp" for i
  proof -
    define r where "r = (pp - 1) div 2"
    have r: "r < pp" using i(4) unfolding r_def by arith
    have ip: "i \<noteq> pp" using i(1,3) by arith
    have "(pp - 1) div 2 \<noteq> pos" using r pp by (simp add: r_def)
    then have top: "priority (h ! pp) \<le> priority (h ! r)"
      using inv1 [of pp] i(4) pp pl by (simp add: r_def)
    have g2r: "g2 ! r = h ! r" using r pp by (intro g2_other) auto
    have "priority (g2 ! i) \<le> priority (g2 ! r)"
    proof (cases "i = pos")
      case True
      then show ?thesis using top g2_pos g2r by simp
    next
      case False
      have "(i - 1) div 2 \<noteq> pos" using i(3) pp by simp
      then have "priority (h ! i) \<le> priority (h ! pp)"
        using inv1 [OF i(1,2) False] i(3) by simp
      then show ?thesis using top g2_other [OF False ip] g2r by simp
    qed
    then show ?thesis by (simp add: r_def)
  qed
  have len: "length g2 = length h" by (simp add: g2_def)
  have "pp < length h" using pp pl by simp
  then have "sd_inv g2 pp"
    unfolding sd_inv_def len using a b by blast
  then show ?thesis by (simp add: g2_def pp_def)
qed

lemma sd_inv_stop:
  assumes inv: "sd_inv (h[pos := x]) pos"
    and stop: "pos = 0 \<or> priority x \<le> priority (h ! ((pos - 1) div 2))"
  shows "heap_inv (h[pos := x])"
proof -
  have pl: "pos < length h" using inv by (simp add: sd_inv_def)
  have "priority (h[pos := x] ! i) \<le> priority (h[pos := x] ! ((i - 1) div 2))"
    if i: "0 < i" "i < length h" for i
  proof (cases "i = pos")
    case True
    then have "(pos - 1) div 2 \<noteq> pos" using i by arith
    then show ?thesis using True stop i pl by (simp add: nth_list_update)
  next
    case False
    then show ?thesis using inv i unfolding sd_inv_def length_list_update by blast
  qed
  then show ?thesis by (simp add: heap_inv_def)
qed

lemma heap_inv_siftdown_loop:
  "sd_inv (h[pos := x]) pos \<Longrightarrow> heap_inv (siftdown_loop Patient_lt h x 0 pos)"
proof (induction Patient_lt h x "0::nat" pos rule: siftdown_loop.induct)
  case (1 heap newitem pos)
  let ?pp = "(pos - 1) div 2"
  show ?case
  proof (cases "0 < pos \<and> Patient_lt newitem (heap ! ?pp)")
    case True
    then have s: "sd_inv (heap[pos := heap ! ?pp, ?pp := newitem]) ?pp"
      using "1.prems" by (intro sd_inv_step) (simp_all add: Patient_lt_def)
    have "siftdown_loop Patient_lt heap newitem 0 pos =
          siftdown_loop Patient_lt (heap[pos := heap ! ?pp]) newitem 0 ?pp"
      using True by (subst siftdown_loop.simps) (simp add: Let_def)
    moreover have "heap_inv (siftdown_loop Patient_lt (heap[pos := heap ! ?pp]) newitem 0 ?pp)"
      using True s by (intro "1.hyps") auto
    ultimately show ?thesis by simp
  next
    case False
    then have "siftdown_loop Patient_lt heap newitem 0 pos = heap[pos := newitem]"
      by (subst siftdown_loop.simps) (auto simp add: Let_def)
    moreover have "heap_inv (heap[pos := newitem])"
      using False "1.prems" by (intro sd_inv_stop) (auto simp add: Patient_lt_def)
    ultimately show ?thesis by simp
  qed
qed

lemma su_inv_step:
  assumes inv: "su_inv h pos" and c: "0 < c" "c < length h" "(c - 1) div 2 = pos"
    and sib: "\<And>s. 0 < s \<Longrightarrow> s < length h \<Longrightarrow> (s - 1) div 2 = pos \<Longrightarrow>
                 priority (h ! s) \<le> priority (h ! c)"
  shows "su_inv (h[pos := h ! c]) c"
proof -
  define h2 where "h2 = h[pos := h ! c]"
  have pc: "pos < c" using c(1,3) by arith
  have pl: "pos < length h" using pc c(2) by simp
  have len: "length h2 = length h" by (simp add: h2_def)
  have h2_pos: "h2 ! pos = h ! c" using pl by (simp add: h2_def)
  have h2_other: "h2 ! i = h ! i" if "i \<noteq> pos" for i using that by (simp add: h2_def)
  have inv1: "priority (h ! i) \<le> priority (h ! ((i - 1) div 2))"
    if "0 < i" "i < length h" "i \<noteq> pos" "(i - 1) div 2 \<noteq> pos" for i
    using inv that unfolding su_inv_def by blast
  have inv2: "priority (h ! i) \<le> priority (h ! ((pos - 1) div 2))"
    if "0 < i" "i < length h" "(i - 1) div 2 = pos" "0 < pos" for i
    using inv that unfolding su_inv_def by blast
  have a: "priority (h2 ! i) \<le> priority (h2 ! ((i - 1) div 2))"
    if i: "0 < i" "i < length h" "i \<noteq> c" "(i - 1) div 2 \<noteq> c" for i
  proof -
    define q where "q = (i - 1) div 2"
    have qi: "q < i" using i(1) unfolding q_def by arith
    consider (hole) "i = pos" | (sibling) "i \<noteq> pos" "q = pos" | (far) "i \<noteq> pos" "q \<noteq> pos"
      by blast
    then have "priority (h2 ! i) \<le> priority (h2 ! q)"
    proof cases
      case hole
      then have "0 < pos" and qp: "q \<noteq> pos" using i(1) qi by simp_all
      then have "priority (h ! c) \<le> priority (h ! ((pos - 1) div 2))"
        using inv2 [OF c] by simp
      then show ?thesis using hole h2_pos h2_other [OF qp] by (simp add: q_def)
    next
      case sibling
      have "priority (h ! i) \<le> priority (h ! c)"
        using sib [OF i(1,2)] sibling(2) by (simp add: q_def)
      then show ?thesis using sibling h2_pos h2_other [OF sibling(1)] by simp
    next
      case far
      have "priority (h ! i) \<le> priority (h ! q)"
        using inv1 [OF i(1,2) far(1)] far(2) by (simp add: q_def)
      then show ?thesis using h2_other [OF far(1)] h2_other [OF far(2)] by simp
    qed
    then show ?thesis by (simp add: q_def)
  qed
  have b: "priority (h2 ! i) \<le> priority (h2 ! ((c - 1) div 2))"
    if i: "0 < i" "i < length h" "(i - 1) div 2 = c" for i
  proof -
    have ci: "c < i" using i(1,3) by arith
    then have ip: "i \<noteq> pos" using pc by simp
    have "(i - 1) div 2 \<noteq> pos" using i(3) pc by simp
    then have "priority (h ! i) \<le> priority (h ! c)"
      using inv1 [OF i(1,2) ip] i(3) by simp
    then show ?thesis using h2_other [OF ip] h2_pos c(3) by simp
  qed
  have "su_inv h2 c"
    unfolding su_inv_def len using a b c(2) by blast
  then show ?thesis by (simp add: h2_def)
qed

lemma su_inv_siftup_loop:
  "su_inv h pos \<Longrightarrow> siftup_loop Patient_lt h pos = (h', pos') \<Longrightarrow> su_inv h' pos'"
proof (induction Patient_lt h pos arbitrary: h' pos' rule: siftup_loop.induct)
  case (1 heap pos)
  let ?c = "2 * pos + 1"
  let ?c' = "if ?c + 1 < length heap \<and> \<not> Patient_lt (heap ! ?c) (heap ! (?c + 1))
             then ?c + 1 else ?c"
  show ?case
  proof (cases "?c < length heap")
    case True
    define c' where "c' = ?c'"
    have eq: "siftup_loop Patient_lt (heap[pos := heap ! c']) c' = (h', pos')"
      using True "1.prems"(2) unfolding c'_def
      by (subst (asm) siftup_loop.simps) (auto simp add: Let_def)
    have cb: "0 < c'" "c' < length heap" "(c' - 1) div 2 = pos"
      using True unfolding c'_def by (auto split: if_splits)
    have sib: "priority (heap ! s) \<le> priority (heap ! c')"
      if s: "0 < s" "s < length heap" "(s - 1) div 2 = pos" for s
    proof -
      have "s = ?c \<or> s = ?c + 1" using s(1,3) by arith
      then show ?thesis
        using s(2) unfolding c'_def by (auto simp add: Patient_lt_def)
    qed
    have "su_inv (heap[pos := heap ! c']) c'"
      using "1.prems"(1) cb sib by (rule su_inv_step)
    then show ?thesis
      using "1.hyps" [OF refl refl True refl refl _ eq [unfolded c'_def]] by (simp add: c'_def)
  next
    case False
    then have "h' = heap" "pos' = pos"
      using "1.prems"(2) by (subst (asm) siftup_loop.simps, simp add: Let_def)+
    with "1.prems"(1) show ?thesis by simp
  qed
qed

lemma su_inv_leaf:
  assumes inv: "su_inv h pos" and leaf: "length h \<le> 2 * pos + 1"
  shows "sd_inv (h[pos := x]) pos"
proof -
  have pl: "pos < length h" using inv by (simp add: su_inv_def)
  have np: "(i - 1) div 2 \<noteq> pos" if "0 < i" "i < length h" for i
    using that leaf by arith
  have a: "priority (h[pos := x] ! i) \<le> priority (h[pos := x] ! ((i - 1) div 2))"
    if i: "0 < i" "i < length h" "i \<noteq> pos" for i
  proof -
    have "priority (h ! i) \<le> priority (h ! ((i - 1) div 2))"
      using inv i np [OF i(1,2)] unfolding su_inv_def by blast
    then show ?thesis using i(3) np [OF i(1,2)] by simp
  qed
  show ?thesis
    unfolding sd_inv_def length_list_update using a np pl by blast
qed

lemma heap_inv_siftup:
  assumes "su_inv h 0"
  shows "heap_inv (siftup Patient_lt h 0)"
proof -
  have p: "0 < length h" using assms by (simp add: su_inv_def)
  obtain h' pos' where e: "siftup_loop Patient_lt h 0 = (h', pos')"
    by (cases "siftup_loop Patient_lt h 0")
  have l: "length h' = length h" "pos' < length h" "length h \<le> 2 * pos' + 1"
    using siftup_loop_props [OF p e, of "h ! 0"] by simp_all
  have "su_inv h' pos'" using assms e by (rule su_inv_siftup_loop)
  then have sd: "sd_inv (h'[pos' := h ! 0]) pos'"
    using l by (intro su_inv_leaf) simp_all
  have "siftup Patient_lt h 0 = siftdown_loop Patient_lt (h'[pos' := h ! 0]) (h ! 0) 0 pos'"
    using e l by (simp add: siftup_def siftdown_def Let_def)
  moreover have "heap_inv (siftdown_loop Patient_lt (h'[pos' := h ! 0]) (h ! 0) 0 pos')"
    using sd by (intro heap_inv_siftdown_loop) simp
  ultimately show ?thesis by simp
qed

lemma heap_inv_heappush:
  assumes "heap_inv h"
  shows "heap_inv (heappush Patient_lt h x)"
proof -
  have a: "priority ((h @ [x]) ! i) \<le> priority ((h @ [x]) ! ((i - 1) div 2))"
    if i: "0 < i" "i < length h + 1" "i \<noteq> length h" for i
  proof -
    have "i < length h" "(i - 1) div 2 < length h" using i by arith+
    then show ?thesis using assms i(1) by (simp add: nth_append heap_inv_def)
  qed
  have b: "(i - 1) div 2 \<noteq> length h" if "0 < i" "i < length h + 1" for i
    using that by arith
  have "sd_inv (h @ [x]) (length h)"
    unfolding sd_inv_def using a b by auto
  then have "heap_inv (siftdown_loop Patient_lt (h @ [x]) x 0 (length h))"
    by (intro heap_inv_siftdown_loop) simp
  then show ?thesis by (simp add: heappush_def siftdown_def)
qed

lemma heap_inv_heappop:
  assumes "heap_inv h" and "heappop Patient_lt h = Inr (x, h')"
  shows "heap_inv h'"
proof (cases h rule: rev_cases)
  case Nil
  with assms(2) show ?thesis by (simp add: heappop_def)
next
  case (snoc ys l)
  show ?thesis
  proof (cases "ys = []")
    case True
    with snoc assms(2) show ?thesis by (simp add: heappop_def heap_inv_def)
  next
    case False
    then have len: "0 < length ys" by simp
    have h': "h' = siftup Patient_lt (ys[0 := l]) 0"
      using assms(2) snoc False by (simp add: heappop_def Let_def)
    have a: "priority (ys[0 := l] ! i) \<le> priority (ys[0 := l] ! ((i - 1) div 2))"
      if i: "0 < i" "i < length ys" "(i - 1) div 2 \<noteq> 0" for i
    proof -
      have q: "(i - 1) div 2 < length ys" using i by arith
      have "priority (h ! i) \<le> priority (h ! ((i - 1) div 2))"
        using assms(1) i snoc by (simp add: heap_inv_def)
      then show ?thesis using i q snoc by (simp add: nth_append)
    qed
    have "su_inv (ys[0 := l]) 0"
      unfolding su_inv_def length_list_update using a len by blast
    then show ?thesis unfolding h' by (rule heap_inv_siftup)
  qed
qed

lemma heap_inv_root_max:
  "heap_inv h \<Longrightarrow> i < length h \<Longrightarrow> priority (h ! i) \<le> priority (h ! 0)"
proof (induction i rule: less_induct)
  case (less i)
  show ?case
  proof (cases "i = 0")
    case True
    then show ?thesis by simp
  next
    case False
    then have q: "(i - 1) div 2 < i" by arith
    have "priority (h ! i) \<le> priority (h ! ((i - 1) div 2))"
      using less.prems False by (simp add: heap_inv_def)
    moreover have "priority (h ! ((i - 1) div 2)) \<le> priority (h ! 0)"
      using q less.prems by (intro less.IH) simp_all
    ultimately show ?thesis by simp
  qed
qed

subsection \<open>Doctor queue: draining\<close>

lemma next_patients_empty:
  "queue d = [] \<Longrightarrow> next_patients m d = Inr (replicate m None, d)"
  by (induction m) (simp_all add: next_patient_def)

lemma next_patient_nonempty:
  assumes "queue d \<noteq> []"
  shows "\<exists>h'. next_patient d = Inr (Some (queue d ! 0), d\<lparr>queue := h'\<rparr>) \<and>
              heappop Patient_lt (queue d) = Inr (queue d ! 0, h') \<and>
              mset (queue d) = add_mset (queue d ! 0) (mset h')"
proof -
  obtain h' where h: "heappop Patient_lt (queue d) = Inr (queue d ! 0, h')"
    "mset (queue d) = add_mset (queue d ! 0) (mset h')"
    using heappop_mset [OF assms, of Patient_lt] by blast
  then show ?thesis using assms by (simp add: next_patient_def)
qed

lemma drain_heap:
  "heap_inv (queue d) \<Longrightarrow> length (queue d) = n \<Longrightarrow>
   \<exists>xs. next_patients (n + m) d = Inr (map Some xs @ replicate m None, d\<lparr>queue := []\<rparr>) \<and>
        mset xs = mset (queue d) \<and>
        sorted_wrt (\<lambda>a b. priority b \<le> priority a) xs"
proof (induction n arbitrary: d)
  case 0
  then have q: "queue d = []" by simp
  then have "d\<lparr>queue := []\<rparr> = d" by simp
  with q show ?case using next_patients_empty [OF q, of m] by simp
next
  case (Suc n)
  then have ne: "queue d \<noteq> []" by auto
  obtain h' where h: "next_patient d = Inr (Some (queue d ! 0), d\<lparr>queue := h'\<rparr>)"
    "heappop Patient_lt (queue d) = Inr (queue d ! 0, h')"
    "mset (queue d) = add_mset (queue d ! 0) (mset h')"
    using next_patient_nonempty [OF ne] by blast
  let ?d' = "d\<lparr>queue := h'\<rparr>"
  have inv': "heap_inv (queue ?d')"
    using heap_inv_heappop [OF Suc.prems(1) h(2)] by simp
  have "size (mset (queue d)) = Suc (size (mset h'))" using h(3) by simp
  then have len': "length (queue ?d') = n" using Suc.prems(2) by simp
  obtain xs where xs: "next_patients (n + m) ?d' = Inr (map Some xs @ replicate m None, ?d'\<lparr>queue := []\<rparr>)"
    "mset xs = mset (queue ?d')" "sorted_wrt (\<lambda>a b. priority b \<le> priority a) xs"
    using Suc.IH [OF inv' len'] by blast
  have top: "priority y \<le> priority (queue d ! 0)" if "y \<in> set xs" for y
  proof -
    have "y \<in># mset xs" using that by simp
    then have "y \<in># mset (queue d)" using xs(2) h(3) by simp
    then have "y \<in> set (queue d)" by simp
    then obtain i where "i < length (queue d)" "queue d ! i = y"
      by (auto simp add: in_set_conv_nth)
    then show ?thesis using heap_inv_root_max [OF Suc.prems(1), of i] by simp
  qed
  let ?xs = "queue d ! 0 # xs"
  have "next_patients (Suc n + m) d = Inr (map Some ?xs @ replicate m None, d\<lparr>queue := []\<rparr>)"
    using h(1) xs(1) by simp
  moreover have "mset ?xs = mset (queue d)" using xs(2) h(3) by simp
  moreover have "sorted_wrt (\<lambda>a b. priority b \<le> priority a) ?xs"
    using xs(3) top by simp
  ultimately show ?case by blast
qed

lemma queue_foldl_add_patient:
  "heap_inv (queue d) \<Longrightarrow>
     heap_inv (queue (foldl add_patient d ps)) \<and>
     mset (queue (foldl add_patient d ps)) = mset (queue d) + mset ps \<and>
     (foldl add_patient d ps)\<lparr>queue := []\<rparr> = d\<lparr>queue := []\<rparr>"
proof (induction ps arbitrary: d)
  case Nil
  then show ?case by simp
next
  case (Cons p ps)
  have "heap_inv (queue (add_patient d p))"
    using Cons.prems by (simp add: add_patient_def heap_inv_heappush)
  from Cons.IH [OF this] show ?case
    by (simp add: add_patient_def mset_heappush)
qed


lemma drain_example:
  "next_patients
     (length [patient_at 0 3 600000000, patient_at 600000000 3 600000000,
              patient_at 300000000 3 600000000] + 2)
     (foldl add_patient doctor_general
        [patient_at 0 3 600000000, patient_at 600000000 3 600000000,
         patient_at 300000000 3 600000000])
   = Inr (map Some [patient_at 600000000 3 600000000, patient_at 300000000 3 600000000,
                    patient_at 0 3 600000000] @ replicate 2 None, doctor_general)"
  by code_simp

lemma doctor_general_queue: "queue doctor_general = []"
  by (simp add: doctor_general_def Doctor_init_def or_else_seq_def random_randint_def)

text \<open>
  Claim C5. For every doctor queue onto which \<open>n\<close> patients \<open>ps\<close> have been pushed with
  \<open>add_patient\<close>, starting from the empty queue, \<open>length ps + m\<close> calls of \<open>next_patient\<close>
  in a row all return normally; the first \<open>n\<close> return the pushed patients (each exactly
  once) in non-increasing priority order, the queue is then empty, and each of the
  \<open>m\<close> further calls returns \<open>None\<close>.
\<close>

theorem next_patient_drains_by_priority:
  assumes "queue d0 = []"
  shows "\<exists>xs. next_patients (length ps + m) (foldl add_patient d0 ps)
               = Inr (map Some xs @ replicate m None, d0) \<and>
              mset xs = mset ps \<and>
              sorted_wrt (\<lambda>a b. priority b \<le> priority a) xs"
proof -
  let ?d = "foldl add_patient d0 ps"
  have "heap_inv (queue d0)" using assms by (simp add: heap_inv_def)
  from queue_foldl_add_patient [OF this, of ps]
  have inv: "heap_inv (queue ?d)" and m: "mset (queue ?d) = mset ps"
    and fr: "?d\<lparr>queue := []\<rparr> = d0"
    using assms by simp_all
  have "size (mset (queue ?d)) = size (mset ps)" using m by simp
  then have len: "length (queue ?d) = length ps" by simp
  from drain_heap [OF inv len, of m] show ?thesis
    using m fr by simp
qed
theorem next_patient_drains_by_priority_witness:
  "queue doctor_general = [] \<and>
   next_patients
     (length [patient_at 0 3 600000000, patient_at 600000000 3 600000000,
              patient_at 300000000 3 600000000] + 2)
     (foldl add_patient doctor_general
        [patient_at 0 3 600000000, patient_at 600000000 3 600000000,
         patient_at 300000000 3 600000000])
     = Inr (map Some [patient_at 600000000 3 600000000, patient_at 300000000 3 600000000,
                      patient_at 0 3 600000000] @ replicate 2 None, doctor_general) \<and>
   mset [patient_at 600000000 3 600000000, patient_at 300000000 3 600000000,
         patient_at 0 3 600000000]
     = mset [patient_at 0 3 600000000, patient_at 600000000 3 600000000,
             patient_at 300000000 3 600000000] \<and>
   sorted_wrt (\<lambda>a b. priority b \<le> priority a)
     [patient_at 600000000 3 600000000, patient_at 300000000 3 600000000,
      patient_at 0 3 600000000]"
proof -
  let ?ps = "[patient_at 0 3 600000000, patient_at 600000000 3 600000000,
              patient_at 300000000 3 600000000]"
  let ?ys = "[patient_at 600000000 3 600000000, patient_at 300000000 3 600000000,
              patient_at 0 3 600000000]"
  obtain xs where xs:
    "next_patients (length ?ps + 2) (foldl add_patient doctor_general ?ps)
       = Inr (map Some xs @ replicate 2 None, doctor_general)"
    "mset xs = mset ?ps" "sorted_wrt (\<lambda>a b. priority b \<le> priority a) xs"
    using next_patient_drains_by_priority [OF doctor_general_queue, of ?ps 2] by blast
  have "map Some xs @ replicate 2 None = map Some ?ys @ replicate 2 None"
    using xs(1) unfolding drain_example by simp
  then have "map Some xs = map Some ?ys" by (simp only: append_same_eq)
  then have "xs = ?ys" by (simp only: inj_map_eq_map [OF inj_Some])
  with xs show ?thesis using doctor_general_queue by simp
qed

subsection \<open>Urgency and determinism\<close>

lemma patient_severe_fields:
  "patient_severe =
     \<lparr>patient_id = ''uuid'', name = ''Bob'', contact_number = None, scheduled_time = 0,
      arrival_time = 0, source = ''App'', medical_condition = (''Severe Symptoms'', 5),
      urgency = 1, priority = 11, status = ''Scheduled'', wait_time = None\<rparr>"
  by (simp add: patient_severe_def world_const_def init_defs calculate_priority_def delay_of_def
      total_seconds_floordiv_delay dict_get_def source_priority_def)

text \<open>
  Claim C3 fails on the code. \<open>_calculate_urgency\<close> takes the severity of a condition
  drawn afresh, not that of the patient's own condition: a patient with the condition
  \<open>("Severe Symptoms", 5)\<close> gets urgency 1 when the draw is \<open>("Minor Checkup", 1)\<close>, and
  in general the urgency is the same whatever condition is passed to the constructor.
\<close>

theorem urgency_ignores_condition:
  "medical_condition patient_severe = (''Severe Symptoms'', 5) \<and> urgency patient_severe = 1 \<and>
   urgency (fst (Patient_init n c s src (Some cond) w))
     = urgency (fst (Patient_init n c s src (Some cond') w))"
  by (simp add: patient_severe_fields Patient_init_def split_beta Let_def or_else_def
      calculate_urgency_def generate_medical_condition_def)

lemma clock_src_uuid4_str: "clock_src (snd (uuid4_str w)) = clock_src w"
  by (simp add: uuid4_str_def)

lemma clock_src_default_name: "clock_src (snd (or_else_seq n default_name w)) = clock_src w"
  by (simp add: or_else_seq_def default_name_def random_randint_def split: option.splits)

lemma Patient_init_arrival_time:
  "arrival_time (fst (Patient_init n c s src cond w))
     = clock_src w (case s of None \<Rightarrow> 1 | Some t \<Rightarrow> 0)"
  by (cases s)
    (simp_all add: Patient_init_def split_beta Let_def or_else_def datetime_now_def
      clock_src_uuid4_str clock_src_default_name)

text \<open>
  Claim C9, as stated, fails. With the same condition, scheduled time, arrival time and
  source, two constructions whose random draws differ get urgencies 4 and 5 and
  different priorities; and with the same constructor arguments and the same draws,
  two readings of the clock give different priorities.
\<close>

theorem priority_nondeterministic_counterexample:
  "medical_condition (patient_at 0 3 600000000) = medical_condition (patient_at 0 4 600000000) \<and>
   scheduled_time (patient_at 0 3 600000000) = scheduled_time (patient_at 0 4 600000000) \<and>
   arrival_time (patient_at 0 3 600000000) = arrival_time (patient_at 0 4 600000000) \<and>
   source (patient_at 0 3 600000000) = source (patient_at 0 4 600000000) \<and>
   urgency (patient_at 0 3 600000000) \<noteq> urgency (patient_at 0 4 600000000) \<and>
   priority (patient_at 0 3 600000000) \<noteq> priority (patient_at 0 4 600000000) \<and>
   priority (patient_at 0 3 600000000) \<noteq> priority (patient_at 0 3 1200000000)"
  by (simp add: patient_at_fields conditions_def total_seconds_floordiv_delay)

text \<open>
  Claim C9, amended. The priority is determined by the urgency, the scheduled time, the
  arrival time and the source of the patient record: two constructed patients that
  agree on these four have the same priority, whatever the world they were constructed
  in. The arrival time is not an argument of the constructor: it is the reading of the
  clock at construction (the first reading when a scheduled time is given, the second
  when the scheduled time itself is read from the clock).
\<close>

theorem priority_determined_by_fields:
  "(urgency (fst (Patient_init n1 c1 s1 src1 cond1 w1))
      = urgency (fst (Patient_init n2 c2 s2 src2 cond2 w2)) \<and>
    scheduled_time (fst (Patient_init n1 c1 s1 src1 cond1 w1))
      = scheduled_time (fst (Patient_init n2 c2 s2 src2 cond2 w2)) \<and>
    arrival_time (fst (Patient_init n1 c1 s1 src1 cond1 w1))
      = arrival_time (fst (Patient_init n2 c2 s2 src2 cond2 w2)) \<and>
    source (fst (Patient_init n1 c1 s1 src1 cond1 w1))
      = source (fst (Patient_init n2 c2 s2 src2 cond2 w2))
    \<longrightarrow> priority (fst (Patient_init n1 c1 s1 src1 cond1 w1))
          = priority (fst (Patient_init n2 c2 s2 src2 cond2 w2))) \<and>
   arrival_time (fst (Patient_init n c s src cond w))
     = clock_src w (case s of None \<Rightarrow> 1 | Some t \<Rightarrow> 0)"
proof (intro conjI impI)
  let ?q1 = "fst (Patient_init n1 c1 s1 src1 cond1 w1)"
  let ?q2 = "fst (Patient_init n2 c2 s2 src2 cond2 w2)"
  assume "urgency ?q1 = urgency ?q2 \<and> scheduled_time ?q1 = scheduled_time ?q2 \<and>
    arrival_time ?q1 = arrival_time ?q2 \<and> source ?q1 = source ?q2"
  then have "calculate_priority ?q1 = calculate_priority ?q2"
    by (simp add: calculate_priority_def delay_of_def)
  then show "priority ?q1 = priority ?q2" by (simp only: Patient_init_priority)
next
  show "arrival_time (fst (Patient_init n c s src cond w))
     = clock_src w (case s of None \<Rightarrow> 1 | Some t \<Rightarrow> 0)"
    by (rule Patient_init_arrival_time)
qed

theorem priority_determined_by_fields_witness:
  "priority (patient_at 0 3 600000000) = priority (patient_at 0 8 600000000) \<and>
   arrival_time (patient_at 0 3 600000000) = 600000000"
  using priority_determined_by_fields [of "Some ''Ann''" None "Some 0" "Some ''App''" "Some (''Acute Pain'', 4)"
      "world_const 3 600000000" "Some ''Ann''" None "Some 0" "Some ''App''"
      "Some (''Acute Pain'', 4)" "world_const 8 600000000"
      "Some ''Ann''" None "Some 0" "Some ''App''" "Some (''Acute Pain'', 4)"
      "world_const 3 600000000", folded patient_at_def]
  by (simp add: patient_at_fields conditions_def world_const_def)

subsection \<open>Routing policy\<close>

lemma map_condition_py_condition:
  "map_condition_to_specialization (py_condition c) = Inr (dict_get mapping (fst c) ''General'')"
  by (simp add: map_condition_to_specialization_def py_condition_def)

text \<open>
  Claim C7, as stated, fails. The method raises on conditions that are not sequences
  with a hashable first component: \<open>TypeError\<close> on the number 5 and on \<open>None\<close>, which
  cannot be subscripted, \<open>TypeError\<close> on a pair whose name is a list, which cannot be
  hashed, and \<open>IndexError\<close> on the empty tuple.
\<close>

theorem map_condition_raises_counterexample:
  "map_condition_to_specialization (PyInt 5) = Inl TypeError \<and>
   map_condition_to_specialization PyNone = Inl TypeError \<and>
   map_condition_to_specialization (PyTuple [PyList [PyStr ''Acute Pain''], PyInt 4])
     = Inl TypeError \<and>
   map_condition_to_specialization (PyTuple []) = Inl IndexError"
  by (simp add: map_condition_to_specialization_def)

text \<open>
  Claim C7, amended. The mapping is total on every condition that is a (name, severity)
  pair, and more generally on every non-empty tuple, list or string whose first
  component is hashable: Chronic Disease Follow-up maps to Cardiology, Acute Pain to
  Orthopedics, Severe Symptoms to Neurology, and every other first component maps to
  General (unknown names, components that are not strings, and a bare string, which is
  read by its first character). It raises exactly when the condition cannot be
  subscripted or is empty (the error of \<open>medical_condition[0]\<close>) or when its first
  component is unhashable (\<open>TypeError\<close>).
\<close>

theorem map_condition_total_on_sequences:
  "map_condition_to_specialization (PyTuple (PyStr ''Chronic Disease Follow-up'' # rest))
     = Inr ''Cardiology'' \<and>
   map_condition_to_specialization (PyTuple (PyStr ''Acute Pain'' # rest)) = Inr ''Orthopedics'' \<and>
   map_condition_to_specialization (PyTuple (PyStr ''Severe Symptoms'' # rest)) = Inr ''Neurology'' \<and>
   (n \<notin> {''Chronic Disease Follow-up'', ''Acute Pain'', ''Severe Symptoms''}
      \<longrightarrow> map_condition_to_specialization (PyTuple (PyStr n # rest)) = Inr ''General'') \<and>
   map_condition_to_specialization (py_condition (n, sev))
     = Inr (if n = ''Chronic Disease Follow-up'' then ''Cardiology''
            else if n = ''Acute Pain'' then ''Orthopedics''
            else if n = ''Severe Symptoms'' then ''Neurology'' else ''General'') \<and>
   map_condition_to_specialization (PyStr (c # cs)) = Inr ''General'' \<and>
   (getitem0 v = Inr k \<and> hashable k \<and> (\<forall>s. k \<noteq> PyStr s)
      \<longrightarrow> map_condition_to_specialization v = Inr ''General'') \<and>
   (map_condition_to_specialization v = Inl e
      \<longleftrightarrow> getitem0 v = Inl e \<or> (\<exists>k. getitem0 v = Inr k \<and> \<not> hashable k \<and> e = TypeError))"
proof (intro conjI impI)
  show "map_condition_to_specialization (PyStr (c # cs)) = Inr ''General''"
    by (simp add: map_condition_to_specialization_def dict_get_def mapping_def)
next
  assume "getitem0 v = Inr k \<and> hashable k \<and> (\<forall>s. k \<noteq> PyStr s)"
  then show "map_condition_to_specialization v = Inr ''General''"
    by (cases k) (simp_all add: map_condition_to_specialization_def)
next
  show "map_condition_to_specialization v = Inl e
      \<longleftrightarrow> getitem0 v = Inl e \<or> (\<exists>k. getitem0 v = Inr k \<and> \<not> hashable k \<and> e = TypeError)"
    by (cases "getitem0 v") (auto simp add: map_condition_to_specialization_def)
qed (simp_all add: map_condition_to_specialization_def py_condition_def dict_get_def mapping_def)

theorem map_condition_total_on_sequences_witness:
  "map_condition_to_specialization (PyTuple [PyStr ''Minor Checkup'', PyInt 1]) = Inr ''General'' \<and>
   map_condition_to_specialization (py_condition (''Acute Pain'', 4)) = Inr ''Orthopedics'' \<and>
   map_condition_to_specialization (PyStr ''Acute Pain'') = Inr ''General'' \<and>
   map_condition_to_specialization (PyList [PyInt 3, PyInt 1]) = Inr ''General''"
  using map_condition_total_on_sequences
          [of "[PyInt 1]" "''Minor Checkup''" 1 "CHR ''A''" "''cute Pain''"
              "PyList [PyInt 3, PyInt 1]" "PyInt 3" TypeError]
        map_condition_total_on_sequences [of "[]" "''Acute Pain''" 4]
  by simp

lemma foldl_min_split:
  fixes f :: "'a \<Rightarrow> int"
  shows "\<exists>ys zs. x # rest = ys @ foldl (\<lambda>best y. if f y < f best then y else best) x rest # zs \<and>
           (\<forall>y \<in> set ys. f (foldl (\<lambda>best y. if f y < f best then y else best) x rest) < f y) \<and>
           (\<forall>z \<in> set zs. f (foldl (\<lambda>best y. if f y < f best then y else best) x rest) \<le> f z)"
proof (induction rest rule: rev_induct)
  case Nil
  have "[x] = [] @ x # []" by simp
  then show ?case by force
next
  case (snoc y rest)
  define r0 where "r0 = foldl (\<lambda>best y. if f y < f best then y else best) x rest"
  obtain ys zs where s: "x # rest = ys @ r0 # zs" "\<forall>y \<in> set ys. f r0 < f y" "\<forall>z \<in> set zs. f r0 \<le> f z"
    using snoc.IH unfolding r0_def by blast
  show ?case
  proof (cases "f y < f r0")
    case True
    then have r: "foldl (\<lambda>best y. if f y < f best then y else best) x (rest @ [y]) = y"
      by (simp add: r0_def)
    have "\<forall>e \<in> set (x # rest). f y < f e"
      unfolding s(1) using s(2,3) True by auto
    moreover have "x # rest @ [y] = (x # rest) @ y # []" by simp
    ultimately show ?thesis unfolding r by (metis empty_iff list.set(1))
  next
    case False
    then have r: "foldl (\<lambda>best y. if f y < f best then y else best) x (rest @ [y]) = r0"
      by (simp add: r0_def)
    have "x # rest @ [y] = ys @ r0 # (zs @ [y])" using s(1) by (metis append_Cons append_assoc)
    moreover have "\<forall>z \<in> set (zs @ [y]). f r0 \<le> f z" using s(3) False by auto
    ultimately show ?thesis unfolding r using s(2) by blast
  qed
qed

lemma min_key_split:
  fixes f :: "'a \<Rightarrow> int"
  assumes "min_key f xs = Inr b"
  shows "\<exists>ys zs. xs = ys @ b # zs \<and> (\<forall>y \<in> set ys. f b < f y) \<and> (\<forall>z \<in> set zs. f b \<le> f z)"
proof (cases xs)
  case Nil
  with assms show ?thesis by (simp add: min_key_def)
next
  case (Cons x rest)
  then have b: "b = foldl (\<lambda>best y. if f y < f best then y else best) x rest"
    using assms by (simp add: min_key_def)
  show ?thesis using foldl_min_split [of x rest f] unfolding Cons b by blast
qed

lemma min_key_sorted:
  fixes f :: "nat \<Rightarrow> int"
  assumes "min_key f xs = Inr b" and "sorted xs"
  shows "b \<in> set xs \<and> (\<forall>i \<in> set xs. f b \<le> f i \<and> (f i = f b \<longrightarrow> b \<le> i))"
proof -
  obtain ys zs where s: "xs = ys @ b # zs" "\<forall>y \<in> set ys. f b < f y" "\<forall>z \<in> set zs. f b \<le> f z"
    using min_key_split [OF assms(1)] by blast
  have "\<forall>z \<in> set zs. b \<le> z" using assms(2) unfolding s(1) by (simp add: sorted_append)
  then show ?thesis unfolding s(1) using s(2,3) by auto
qed

lemma sorted_suitable_doctors: "sorted (suitable_doctors self patient)"
  by (simp add: suitable_doctors_def Let_def sorted_wrt_filter)

lemma set_suitable_doctors:
  "set (suitable_doctors self patient) =
     (if {i. i < length (doctors self) \<and> is_doctor_suitable (snd (doctors self ! i)) patient} = {}
      then {i. i < length (doctors self) \<and> specialization (snd (doctors self ! i)) = ''General''}
      else {i. i < length (doctors self) \<and> is_doctor_suitable (snd (doctors self ! i)) patient})"
  by (auto simp add: suitable_doctors_def Let_def filter_empty_conv)

lemma suitable_doctors_bound: "i \<in> set (suitable_doctors self patient) \<Longrightarrow> i < length (doctors self)"
  by (auto simp add: set_suitable_doctors split: if_splits)

lemma best_doctor_pos_props:
  assumes "best_doctor_pos self patient = Inr b"
  shows "b \<in> set (suitable_doctors self patient) \<and> b < length (doctors self) \<and>
     (\<forall>i \<in> set (suitable_doctors self patient).
        estimate_wait_time (snd (doctors self ! b)) \<le> estimate_wait_time (snd (doctors self ! i)) \<and>
        (estimate_wait_time (snd (doctors self ! i)) = estimate_wait_time (snd (doctors self ! b))
           \<longrightarrow> b \<le> i))"
  using min_key_sorted [OF assms [unfolded best_doctor_pos_def] sorted_suitable_doctors]
    suitable_doctors_bound [of b self patient] by blast

lemma assign_patient_Inr:
  assumes "assign_patient self patient w = Inr (d, self', w')"
  shows "\<exists>b. best_doctor_pos self patient = Inr b \<and>
     d = add_patient (snd (doctors self ! b)) patient \<and>
     self' = self\<lparr>doctors := (doctors self)[b := (fst (doctors self ! b), d)]\<rparr> \<and>
     w' = send_notification patient
            (''Assigned to Dr. '' @ doctor_id d @ ''. Estimated wait: '' @
             str_int (estimate_wait_time d) @ '' minutes'') w"
  using assms by (auto simp add: assign_patient_def Let_def split: sum.splits)

lemma assign_patient_Inl:
  "assign_patient self patient w = Inl e \<longleftrightarrow> best_doctor_pos self patient = Inl e"
  by (auto simp add: assign_patient_def Let_def split: sum.splits)

lemma Doctor_init_example:
  "fst (Doctor_init did spec (Some [(0, 1)]) (world_const 0 0)) =
     \<lparr>doctor_id = did, specialization = spec, queue = [], availability_blocks = [(0, 1)],
      avg_consultation_time = 10, daily_capacity = 30\<rparr>"
  by (simp add: Doctor_init_def or_else_seq_def random_randint_def world_const_def)

lemma qms_BA:
  "doctors (qms_of [(''B'', ''General''), (''A'', ''General'')]) =
     [(''B'', \<lparr>doctor_id = ''B'', specialization = ''General'', queue = [],
               availability_blocks = [(0, 1)], avg_consultation_time = 10, daily_capacity = 30\<rparr>),
      (''A'', \<lparr>doctor_id = ''A'', specialization = ''General'', queue = [],
               availability_blocks = [(0, 1)], avg_consultation_time = 10, daily_capacity = 30\<rparr>)]"
  by (simp add: qms_of_def add_doctor_def Doctor_init_example split_beta)

lemma qms_CN:
  "doctors (qms_of [(''C1'', ''Cardiology''), (''N1'', ''Neurology'')]) =
     [(''C1'', \<lparr>doctor_id = ''C1'', specialization = ''Cardiology'', queue = [],
               availability_blocks = [(0, 1)], avg_consultation_time = 10, daily_capacity = 30\<rparr>),
      (''N1'', \<lparr>doctor_id = ''N1'', specialization = ''Neurology'', queue = [],
               availability_blocks = [(0, 1)], avg_consultation_time = 10, daily_capacity = 30\<rparr>)]"
  by (simp add: qms_of_def add_doctor_def Doctor_init_example split_beta)

lemma qms_C:
  "doctors (qms_of [(''C1'', ''Cardiology'')]) =
     [(''C1'', \<lparr>doctor_id = ''C1'', specialization = ''Cardiology'', queue = [],
               availability_blocks = [(0, 1)], avg_consultation_time = 10, daily_capacity = 30\<rparr>)]"
  by (simp add: qms_of_def add_doctor_def Doctor_init_example split_beta)

lemma str_int_10: "str_int 10 = ''10''"
  by (simp add: str_int_def str_nat.simps digit_char_def)

lemma heappush_empty: "heappush lt [] x = [x]"
  by (simp add: heappush_def siftdown_def siftdown_loop.simps)

lemma suitable_BA:
  "suitable_doctors (qms_of [(''B'', ''General''), (''A'', ''General'')]) p = [0, 1]"
  by (simp add: suitable_doctors_def qms_BA is_doctor_suitable_def upt_rec [of 0] upt_rec [of 1]
      upt_rec [of 2])

lemma best_BA:
  "best_doctor_pos (qms_of [(''B'', ''General''), (''A'', ''General'')]) p = Inr 0"
  by (simp add: best_doctor_pos_def suitable_BA min_key_def qms_BA estimate_wait_time_def)

lemma assign_BA:
  "assign_patient (qms_of [(''B'', ''General''), (''A'', ''General'')])
      (patient_at 0 3 600000000) (world_const 0 0) =
   Inr (\<lparr>doctor_id = ''B'', specialization = ''General'', queue = [patient_at 0 3 600000000],
         availability_blocks = [(0, 1)], avg_consultation_time = 10, daily_capacity = 30\<rparr>,
        \<lparr>doctors =
           [(''B'', \<lparr>doctor_id = ''B'', specialization = ''General'',
                     queue = [patient_at 0 3 600000000],
                     availability_blocks = [(0, 1)], avg_consultation_time = 10,
                     daily_capacity = 30\<rparr>),
            (''A'', \<lparr>doctor_id = ''A'', specialization = ''General'', queue = [],
                     availability_blocks = [(0, 1)], avg_consultation_time = 10,
                     daily_capacity = 30\<rparr>)]\<rparr>,
        \<lparr>rand_src = (\<lambda>n. 0), clock_src = (\<lambda>n. 0), uuid_src = (\<lambda>n. ''uuid''),
         stdout = [''Notification to Ann (App): Assigned to Dr. B. Estimated wait: 10 minutes''],
         log_info = [''Notification sent to uuid: Assigned to Dr. B. Estimated wait: 10 minutes'']\<rparr>)"
  by (simp add: assign_patient_def best_BA Let_def qms_BA add_patient_def heappush_empty
      estimate_wait_time_def str_int_10 send_notification_def world_const_def patient_at_3)

lemma suitable_C: "suitable_doctors (qms_of [(''C1'', ''Cardiology'')]) (patient_at s 3 t) = []"
  by (simp add: suitable_doctors_def qms_C is_doctor_suitable_def upt_rec [of 0] upt_rec [of 1]
      map_condition_py_condition patient_at_3 dict_get_def mapping_def)


lemma best_C: "best_doctor_pos (qms_of [(''C1'', ''Cardiology'')]) (patient_at s 3 t) = Inl ValueError"
  by (simp add: best_doctor_pos_def suitable_C min_key_def)

text \<open>
  Claim C4, as stated, fails. With a registry holding one Cardiology doctor and a
  patient whose condition requires Orthopedics, \<open>assign_patient\<close> ends in the
  \<open>ValueError\<close> that \<open>min\<close> raises on the empty candidate list; nothing in the method
  catches it or turns it into another condition.
\<close>

theorem assign_no_candidate_counterexample:
  "map (specialization \<circ> snd) (doctors (qms_of [(''C1'', ''Cardiology'')])) = [''Cardiology''] \<and>
   map_condition_to_specialization (py_condition (medical_condition (patient_at 0 3 600000000)))
     = Inr ''Orthopedics'' \<and>
   assign_patient (qms_of [(''C1'', ''Cardiology'')]) (patient_at 0 3 600000000) (world_const 0 0)
     = Inl ValueError"
proof -
  have "assign_patient (qms_of [(''C1'', ''Cardiology'')]) (patient_at 0 3 600000000)
          (world_const 0 0) = Inl ValueError"
    by (simp add: assign_patient_Inl best_C)
  then show ?thesis
    by (simp add: qms_C patient_at_3 map_condition_py_condition dict_get_def mapping_def)
qed

text \<open>
  Claim C4, amended. For every registry with no General doctor and no doctor of the
  patient's required specialization, \<open>assign_patient\<close> fails with \<open>ValueError\<close>, raised
  by \<open>min\<close> on the empty candidate list before any queue is changed or any notification
  is sent.
\<close>

theorem assign_no_candidate_raises:
  assumes "\<forall>i < length (doctors self).
             specialization (snd (doctors self ! i)) \<noteq> ''General'' \<and>
             Inr (specialization (snd (doctors self ! i)))
               \<noteq> map_condition_to_specialization (py_condition (medical_condition patient))"
  shows "assign_patient self patient w = Inl ValueError"
proof -
  have "set (suitable_doctors self patient) = {}"
    using assms by (auto simp add: set_suitable_doctors is_doctor_suitable_def)
  then have "suitable_doctors self patient = []" by simp
  then show ?thesis
    by (simp add: assign_patient_def best_doctor_pos_def min_key_def)
qed

theorem assign_no_candidate_raises_witness:
  "assign_patient (qms_of [(''C1'', ''Cardiology''), (''N1'', ''Neurology'')])
     (patient_at 0 3 600000000) (world_const 0 0) = Inl ValueError"
  using assign_no_candidate_raises [of "qms_of [(''C1'', ''Cardiology''), (''N1'', ''Neurology'')]"
      "patient_at 0 3 600000000" "world_const 0 0"]
  by (simp add: qms_CN patient_at_3 map_condition_py_condition dict_get_def mapping_def
      less_Suc_eq)

text \<open>
  Claim C6, as stated, fails. In the registry built by adding doctor \<open>B\<close> and then doctor
  \<open>A\<close>, both General with empty queues, both are candidates with estimated wait 0, and
  the patient is assigned to \<open>B\<close>, although \<open>A\<close> is the smaller id.
\<close>

theorem tie_break_counterexample:
  "set (suitable_doctors (qms_of [(''B'', ''General''), (''A'', ''General'')])
         (patient_at 0 3 600000000)) = {0, 1} \<and>
   map (doctor_id \<circ> snd) (doctors (qms_of [(''B'', ''General''), (''A'', ''General'')]))
     = [''B'', ''A''] \<and>
   map (estimate_wait_time \<circ> snd) (doctors (qms_of [(''B'', ''General''), (''A'', ''General'')]))
     = [0, 0] \<and>
   (case assign_patient (qms_of [(''B'', ''General''), (''A'', ''General'')])
           (patient_at 0 3 600000000) (world_const 0 0) of
      Inl e \<Rightarrow> False
    | Inr (d, self', w') \<Rightarrow> doctor_id d = ''B'') \<and>
   ''A'' < ''B''"
  by (simp add: suitable_BA qms_BA assign_BA estimate_wait_time_def less_char_def)

text \<open>
  Claim C6, amended. The candidates are the positions of the suitable doctors (General,
  or of the patient's required specialization), or of the General doctors when there
  is no suitable one. A successful assignment returns the candidate with the least
  estimated wait; among candidates with that wait it is the one at the least position
  of the registry, that is, the one inserted first.
\<close>

theorem best_doctor_first_minimal:
  assumes "assign_patient self patient w = Inr (d, self', w')"
  shows "\<exists>b. b \<in> set (suitable_doctors self patient) \<and>
           d = add_patient (snd (doctors self ! b)) patient \<and>
           (\<forall>i \<in> set (suitable_doctors self patient).
              estimate_wait_time (snd (doctors self ! b))
                \<le> estimate_wait_time (snd (doctors self ! i)) \<and>
              (estimate_wait_time (snd (doctors self ! i))
                 = estimate_wait_time (snd (doctors self ! b)) \<longrightarrow> b \<le> i)) \<and>
           set (suitable_doctors self patient) =
             (if {i. i < length (doctors self) \<and>
                     is_doctor_suitable (snd (doctors self ! i)) patient} = {}
              then {i. i < length (doctors self) \<and>
                       specialization (snd (doctors self ! i)) = ''General''}
              else {i. i < length (doctors self) \<and>
                       is_doctor_suitable (snd (doctors self ! i)) patient})"
proof -
  obtain b where b: "best_doctor_pos self patient = Inr b"
    "d = add_patient (snd (doctors self ! b)) patient"
    using assign_patient_Inr [OF assms] by blast
  show ?thesis
    using best_doctor_pos_props [OF b(1)] b(2) set_suitable_doctors [of self patient] by blast
qed

theorem best_doctor_first_minimal_witness:
  "\<exists>b. b \<in> set (suitable_doctors (qms_of [(''B'', ''General''), (''A'', ''General'')])
                  (patient_at 0 3 600000000)) \<and>
       \<lparr>doctor_id = ''B'', specialization = ''General'', queue = [patient_at 0 3 600000000],
        availability_blocks = [(0, 1)], avg_consultation_time = 10, daily_capacity = 30\<rparr>
         = add_patient (snd (doctors (qms_of [(''B'', ''General''), (''A'', ''General'')]) ! b))
             (patient_at 0 3 600000000)"
  using best_doctor_first_minimal [OF assign_BA] by blast

subsection \<open>Assignment\<close>

text \<open>
  Claim C8. Every successful \<open>assign_patient\<close> pushes the patient onto the queue of the
  selected doctor with \<open>heappush\<close>, prints exactly one notification line and logs exactly
  one message, whose estimated wait is the length of the queue after the push times
  that doctor's average consultation time, and returns that doctor as stored in the
  registry.
\<close>

theorem assign_pushes_and_notifies:
  assumes "assign_patient self patient w = Inr (d, self', w')"
  shows "\<exists>b < length (doctors self).
           best_doctor_pos self patient = Inr b \<and>
           queue d = heappush Patient_lt (queue (snd (doctors self ! b))) patient \<and>
           mset (queue d) = add_mset patient (mset (queue (snd (doctors self ! b)))) \<and>
           doctors self' ! b = (fst (doctors self ! b), d) \<and>
           doctor_id d = doctor_id (snd (doctors self ! b)) \<and>
           stdout w' = stdout w @
             [''Notification to '' @ name patient @ '' ('' @ source patient @ ''): '' @
              ''Assigned to Dr. '' @ doctor_id d @ ''. Estimated wait: '' @
              str_int (int (length (queue d)) * avg_consultation_time d) @ '' minutes''] \<and>
           log_info w' = log_info w @
             [''Notification sent to '' @ patient_id patient @ '': '' @
              ''Assigned to Dr. '' @ doctor_id d @ ''. Estimated wait: '' @
              str_int (int (length (queue d)) * avg_consultation_time d) @ '' minutes'']"
proof -
  obtain b where b: "best_doctor_pos self patient = Inr b"
    "d = add_patient (snd (doctors self ! b)) patient"
    "self' = self\<lparr>doctors := (doctors self)[b := (fst (doctors self ! b), d)]\<rparr>"
    "w' = send_notification patient
            (''Assigned to Dr. '' @ doctor_id d @ ''. Estimated wait: '' @
             str_int (estimate_wait_time d) @ '' minutes'') w"
    using assign_patient_Inr [OF assms] by blast
  have bl: "b < length (doctors self)" using best_doctor_pos_props [OF b(1)] by simp
  have q: "queue d = heappush Patient_lt (queue (snd (doctors self ! b))) patient"
    and i: "doctor_id d = doctor_id (snd (doctors self ! b))"
    using b(2) by (simp_all add: add_patient_def)
  have m: "mset (queue d) = add_mset patient (mset (queue (snd (doctors self ! b))))"
    using q by (simp add: mset_heappush)
  have n: "doctors self' ! b = (fst (doctors self ! b), d)"
    using b(3) bl by simp
  have o: "stdout w' = stdout w @
             [''Notification to '' @ name patient @ '' ('' @ source patient @ ''): '' @
              ''Assigned to Dr. '' @ doctor_id d @ ''. Estimated wait: '' @
              str_int (int (length (queue d)) * avg_consultation_time d) @ '' minutes'']"
    and l: "log_info w' = log_info w @
             [''Notification sent to '' @ patient_id patient @ '': '' @
              ''Assigned to Dr. '' @ doctor_id d @ ''. Estimated wait: '' @
              str_int (int (length (queue d)) * avg_consultation_time d) @ '' minutes'']"
    unfolding b(4) by (simp_all add: send_notification_def estimate_wait_time_def)
  show ?thesis using bl b(1) q m n i o l by blast
qed

theorem assign_pushes_and_notifies_witness:
  "\<exists>b < length (doctors (qms_of [(''B'', ''General''), (''A'', ''General'')])).
      best_doctor_pos (qms_of [(''B'', ''General''), (''A'', ''General'')]) (patient_at 0 3 600000000) = Inr b \<and>
      queue \<lparr>doctor_id = ''B'', specialization = ''General'', queue = [patient_at 0 3 600000000],
          availability_blocks = [(0, 1)], avg_consultation_time = 10, daily_capacity = 30\<rparr>
        = heappush Patient_lt (queue (snd (doctors (qms_of [(''B'', ''General''), (''A'', ''General'')]) ! b)))
            (patient_at 0 3 600000000)"
  using assign_pushes_and_notifies [OF assign_BA] by blast

text \<open>
  Claim C10. Every successful \<open>assign_patient\<close> changes only the queue of the selected
  doctor: that queue gains exactly the assigned patient and grows by one; every other
  entry of the registry, the keys of the registry and their order, and every other
  attribute of the selected doctor are unchanged.
\<close>

theorem assign_frame:
  assumes "assign_patient self patient w = Inr (d, self', w')"
  shows "\<exists>b < length (doctors self).
           length (doctors self') = length (doctors self) \<and>
           map fst (doctors self') = map fst (doctors self) \<and>
           (\<forall>i < length (doctors self). i \<noteq> b \<longrightarrow> doctors self' ! i = doctors self ! i) \<and>
           snd (doctors self' ! b) = d \<and>
           d = (snd (doctors self ! b))\<lparr>queue := queue d\<rparr> \<and>
           mset (queue d) = add_mset patient (mset (queue (snd (doctors self ! b)))) \<and>
           length (queue d) = length (queue (snd (doctors self ! b))) + 1"
proof -
  obtain b where b: "best_doctor_pos self patient = Inr b"
    "d = add_patient (snd (doctors self ! b)) patient"
    "self' = self\<lparr>doctors := (doctors self)[b := (fst (doctors self ! b), d)]\<rparr>"
    using assign_patient_Inr [OF assms] by blast
  have bl: "b < length (doctors self)" using best_doctor_pos_props [OF b(1)] by simp
  have len: "length (doctors self') = length (doctors self)" using b(3) by simp
  have "(map fst (doctors self))[b := map fst (doctors self) ! b] = map fst (doctors self)"
    by (rule list_update_id)
  then have keys: "map fst (doctors self') = map fst (doctors self)"
    using b(3) bl by (simp add: map_update)
  have others: "\<forall>i < length (doctors self). i \<noteq> b \<longrightarrow> doctors self' ! i = doctors self ! i"
    using b(3) by simp
  have at: "snd (doctors self' ! b) = d" using b(3) bl by simp
  have fr: "d = (snd (doctors self ! b))\<lparr>queue := queue d\<rparr>"
    using b(2) by (simp add: add_patient_def)
  have m: "mset (queue d) = add_mset patient (mset (queue (snd (doctors self ! b))))"
    using b(2) by (simp add: add_patient_def mset_heappush)
  then have "size (mset (queue d)) = Suc (size (mset (queue (snd (doctors self ! b)))))"
    by simp
  then have n: "length (queue d) = length (queue (snd (doctors self ! b))) + 1" by simp
  show ?thesis using bl len keys others at fr m n by blast
qed

theorem assign_frame_witness:
  "\<exists>b < length (doctors (qms_of [(''B'', ''General''), (''A'', ''General'')])).
      length (queue \<lparr>doctor_id = ''B'', specialization = ''General'', queue = [patient_at 0 3 600000000],
          availability_blocks = [(0, 1)], avg_consultation_time = 10, daily_capacity = 30\<rparr>)
        = length (queue (snd (doctors (qms_of [(''B'', ''General''), (''A'', ''General'')]) ! b))) + 1 \<and>
      mset (queue \<lparr>doctor_id = ''B'', specialization = ''General'', queue = [patient_at 0 3 600000000],
          availability_blocks = [(0, 1)], avg_consultation_time = 10, daily_capacity = 30\<rparr>)
        = add_mset (patient_at 0 3 600000000)
            (mset (queue (snd (doctors (qms_of [(''B'', ''General''), (''A'', ''General'')]) ! b))))"
  using assign_frame [OF assign_BA] by blast

end
